theory Spec2Isabelle
  imports Main "HOL-Library.Word"
begin

unbundle bit_operations_syntax

section \<open>The Xen network frontend (drivers/net/xen-netfront.c)\<close>

text \<open>
  A shallow embedding of the ring protocol engine of the driver. C integers are words of
  their width (\<open>unsigned\<close> and \<open>RING_IDX\<close> are 32 bits, \<open>unsigned long\<close> and pointers
  64 bits, as on x86-64); every \<open>BUG()\<close> and \<open>BUG_ON()\<close> of the source is a value of
  type \<open>bug\<close> returned on the left of a sum. C arrays are indexed without a bounds
  check; they are total functions of the index here.
\<close>

subsection \<open>Types and constants\<close>

type_synonym u8 = "8 word"
type_synonym u16 = "16 word"
type_synonym u32 = "32 word"
type_synonym u64 = "64 word"
type_synonym RING_IDX = "32 word"
type_synonym grant_ref_t = "32 word"

text \<open>Constants of the kernel headers (x86, Linux 3.x); the headers are not part of the
  driver's file.\<close>

definition PAGE_SIZE :: nat where "PAGE_SIZE = 4096"
definition ETH_HLEN :: int where "ETH_HLEN = 14"
definition ETH_DATA_LEN :: int where "ETH_DATA_LEN = 1500"
definition EINVAL :: int where "EINVAL = 22"
definition NETIF_F_SG :: u64 where "NETIF_F_SG = 1"

definition GRANT_INVALID_REF :: grant_ref_t where "GRANT_INVALID_REF = 0"

subsection \<open>The network device\<close>

record net_device =
  carrier_ok :: bool
  running :: bool
  queue_stopped :: bool
  features :: u64
  mtu :: u32
  tx_dropped :: u64
  rx_errors :: u64

definition xennet_can_sg :: "net_device \<Rightarrow> bool" where
  "xennet_can_sg dev = (features dev AND NETIF_F_SG \<noteq> 0)"

text \<open>\<open>xennet_change_mtu(dev, mtu)\<close>: \<open>mtu\<close> is a C \<open>int\<close>, read with \<open>sint\<close>; the
  store into the unsigned \<open>dev->mtu\<close> keeps its bits. The result is the return value and
  the device.\<close>

definition xennet_change_mtu :: "net_device \<Rightarrow> u32 \<Rightarrow> int \<times> net_device" where
  "xennet_change_mtu dev m =
     (let max = (if xennet_can_sg dev then 65535 - ETH_HLEN else ETH_DATA_LEN)
      in if sint m > max then (- EINVAL, dev) else (0, dev\<lparr>mtu := m\<rparr>))"

subsection \<open>The transmit slot table and its freelist\<close>

text \<open>\<open>struct tx_slot\<close> holds a union of an skb pointer and a freelist link, both one
  \<open>unsigned long\<close> cell (field \<open>link\<close>; \<open>.skb\<close> reads the same cell), and a grant
  reference.\<close>

record tx_slot =
  link :: u64
  gref :: grant_ref_t

text \<open>\<open>skb_entry_set_link(list, id)\<close> takes the link as an \<open>unsigned short\<close>.\<close>

definition skb_entry_set_link :: "tx_slot \<Rightarrow> u16 \<Rightarrow> tx_slot" where
  "skb_entry_set_link slot idn = slot\<lparr>link := ucast idn\<rparr>"

text \<open>\<open>add_id_to_freelist(head, list, id)\<close>: the old head, an \<open>unsigned\<close>, is passed
  to \<open>skb_entry_set_link\<close> and so cut to 16 bits. The result is the new head and table.\<close>

definition add_id_to_freelist ::
  "u32 \<Rightarrow> (nat \<Rightarrow> tx_slot) \<Rightarrow> u16 \<Rightarrow> u32 \<times> (nat \<Rightarrow> tx_slot)" where
  "add_id_to_freelist head list idn =
     (ucast idn, list(unat idn := skb_entry_set_link (list (unat idn)) (ucast head)))"

text \<open>\<open>get_id_from_freelist(head, list)\<close>: the result is the returned id (an
  \<open>unsigned short\<close>) and the new head.\<close>

definition get_id_from_freelist :: "u32 \<Rightarrow> (nat \<Rightarrow> tx_slot) \<Rightarrow> u16 \<times> u32" where
  "get_id_from_freelist head list =
     (let idn = head in (ucast idn, ucast (link (list (unat idn)))))"

subsection \<open>Outcomes\<close>

text \<open>The assertions of the driver: \<open>BUG_ON(!netif_carrier_ok(dev))\<close> and \<open>BUG()\<close> on a
  grant still in use in \<open>xennet_tx_buf_gc\<close>, \<open>BUG_ON((signed short)ref < 0)\<close> after
  every claim of a grant reference, \<open>BUG_ON(np->rx_slots[..].skb)\<close> before a receive slot
  is filled, \<open>BUG_ON(!ret)\<close> after the end of foreign access in
  \<open>xennet_get_responses\<close>; and the dereference of a \<open>NULL\<close> buffer pointer, where the
  receive path queues or dequeues a buffer without a test. A function that can reach one
  returns \<open>bug + result\<close>.\<close>

datatype bug = BUG_carrier_off | BUG_grant_in_use | BUG_no_grant | BUG_slot_busy | BUG_end_access
  | OOPS_null_skb

subsection \<open>Grant references\<close>

text \<open>
  Modelled from the spec: the grant table (\<open>drivers/xen/grant-table.c\<close>) is not in the
  driver's file. Section 4.5 of the specification gives its contract: \<open>claim\<close> takes a
  reference from a pre-sized pool, \<open>bind\<close> grants the peer access to a page in an access
  mode, \<open>end\<close> answers \<open>Ended\<close> or \<open>StillMapped\<close>, \<open>release\<close> returns the
  reference to the pool. The pool behind a head (\<open>gref_tx_head\<close>, \<open>gref_rx_head\<close>) is
  the list of its free references; an entry records the access granted (frame and
  read-only flag) and whether the peer has the page mapped, which the peer alone writes.
  A claim from an empty pool returns \<open>-ENOSPC\<close>.
\<close>

record grant_entry =
  granted :: "(nat \<times> bool) option"
  mapped :: bool

definition ENOSPC :: int where "ENOSPC = 28"

definition gnttab_claim_grant_reference :: "grant_ref_t list \<Rightarrow> grant_ref_t \<times> grant_ref_t list" where
  "gnttab_claim_grant_reference pool =
     (case pool of [] \<Rightarrow> (of_int (- ENOSPC), []) | r # rs \<Rightarrow> (r, rs))"

definition gnttab_release_grant_reference :: "grant_ref_t list \<Rightarrow> grant_ref_t \<Rightarrow> grant_ref_t list" where
  "gnttab_release_grant_reference pool r = r # pool"

definition gnttab_grant_foreign_access_ref ::
  "(grant_ref_t \<Rightarrow> grant_entry) \<Rightarrow> grant_ref_t \<Rightarrow> nat \<Rightarrow> bool \<Rightarrow> (grant_ref_t \<Rightarrow> grant_entry)" where
  "gnttab_grant_foreign_access_ref gt r frame readonly =
     gt(r := (gt r)\<lparr>granted := Some (frame, readonly)\<rparr>)"

definition gnttab_query_foreign_access :: "(grant_ref_t \<Rightarrow> grant_entry) \<Rightarrow> grant_ref_t \<Rightarrow> bool" where
  "gnttab_query_foreign_access gt r = mapped (gt r)"

definition gnttab_end_foreign_access_ref ::
  "(grant_ref_t \<Rightarrow> grant_entry) \<Rightarrow> grant_ref_t \<Rightarrow> bool \<times> (grant_ref_t \<Rightarrow> grant_entry)" where
  "gnttab_end_foreign_access_ref gt r =
     (if mapped (gt r) then (False, gt) else (True, gt(r := (gt r)\<lparr>granted := None\<rparr>)))"

text \<open>\<open>(signed short)ref < 0\<close>, the test of every \<open>BUG_ON\<close> after a claim.\<close>

definition ref_negative :: "grant_ref_t \<Rightarrow> bool" where
  "ref_negative r = (sint (ucast r :: u16) < 0)"

subsection \<open>Packet buffers\<close>

text \<open>
  \<open>struct sk_buff\<close> with the fields the driver reads and writes. \<open>skb_addr\<close> is the
  address of the buffer, the value of a pointer to it. \<open>frags\<close> and \<open>nr_frags\<close> are
  those of \<open>skb_shinfo(skb)\<close>, \<open>pull_to\<close> that of \<open>NETFRONT_SKB_CB(skb)\<close>.
  \<open>needs_gso\<close> is the value of \<open>netif_needs_gso(skb, netif_skb_features(skb))\<close>, a
  helper of the network core that is not in the driver's file: the packet asks for a
  segmentation offload that the device does not offer.
\<close>

datatype ip_summed_t = CHECKSUM_NONE | CHECKSUM_UNNECESSARY | CHECKSUM_COMPLETE | CHECKSUM_PARTIAL

record skb_frag =
  frag_page :: nat
  page_offset :: u32
  frag_size :: u32

record sk_buff =
  skb_addr :: u64
  skb_data :: u64
  len :: u32
  data_len :: u32
  truesize :: u32
  ip_summed :: ip_summed_t
  nr_frags :: nat
  frags :: "nat \<Rightarrow> skb_frag"
  gso_size :: u16
  gso_type :: u16
  gso_segs :: u16
  pull_to :: int
  needs_gso :: bool

definition skb_headlen :: "sk_buff \<Rightarrow> u32" where
  "skb_headlen skb = len skb - data_len skb"

definition offset_in_page :: "u64 \<Rightarrow> nat" where
  "offset_in_page a = unat a mod PAGE_SIZE"

text \<open>Address translation (\<open>virt_to_mfn\<close>, \<open>pfn_to_mfn(page_to_pfn(page))\<close>) belongs to
  the hypervisor interface; it is the identity on frame numbers here.\<close>

definition virt_to_mfn :: "u64 \<Rightarrow> nat" where
  "virt_to_mfn a = unat a div PAGE_SIZE"

definition page_to_mfn :: "nat \<Rightarrow> nat" where
  "page_to_mfn pg = pg"

text \<open>Reference counts of buffers by address: \<open>skb_get\<close> takes a reference,
  \<open>dev_kfree_skb\<close>, \<open>dev_kfree_skb_irq\<close> and \<open>kfree_skb\<close> drop one; the buffer is
  freed when none is left.\<close>

definition skb_get :: "(u64 \<Rightarrow> nat) \<Rightarrow> u64 \<Rightarrow> (u64 \<Rightarrow> nat)" where
  "skb_get users a = users(a := users a + 1)"

definition dev_kfree_skb :: "(u64 \<Rightarrow> nat) \<Rightarrow> u64 \<Rightarrow> (u64 \<Rightarrow> nat)" where
  "dev_kfree_skb users a = users(a := users a - 1)"

subsection \<open>Ring entries\<close>

text \<open>Constants of \<open>xen/interface/io/netif.h\<close> and \<open>linux/skbuff.h\<close>.\<close>

definition XEN_NETTXF_csum_blank :: u16 where "XEN_NETTXF_csum_blank = 1"
definition XEN_NETTXF_data_validated :: u16 where "XEN_NETTXF_data_validated = 2"
definition XEN_NETTXF_more_data :: u16 where "XEN_NETTXF_more_data = 4"
definition XEN_NETTXF_extra_info :: u16 where "XEN_NETTXF_extra_info = 8"
definition XEN_NETIF_RSP_NULL :: int where "XEN_NETIF_RSP_NULL = 1"
definition XEN_NETIF_EXTRA_TYPE_GSO :: u8 where "XEN_NETIF_EXTRA_TYPE_GSO = 1"
definition XEN_NETIF_EXTRA_TYPE_MAX :: u8 where "XEN_NETIF_EXTRA_TYPE_MAX = 2"
definition XEN_NETIF_EXTRA_FLAG_MORE :: u8 where "XEN_NETIF_EXTRA_FLAG_MORE = 1"
definition XEN_NETIF_GSO_TYPE_TCPV4 :: u8 where "XEN_NETIF_GSO_TYPE_TCPV4 = 1"
definition MAX_SKB_FRAGS :: nat where "MAX_SKB_FRAGS = 65536 div PAGE_SIZE + 1"
definition NETDEV_TX_OK :: int where "NETDEV_TX_OK = 0"

record xen_netif_tx_request =
  txreq_gref :: grant_ref_t
  txreq_offset :: u16
  txreq_flags :: u16
  txreq_id :: u16
  txreq_size :: u16

record xen_netif_tx_response =
  txrsp_id :: u16
  txrsp_status :: u16

record xen_netif_extra_info =
  extra_type :: u8
  extra_flags :: u8
  extra_gso_size :: u16
  extra_gso_type :: u8
  extra_gso_pad :: u8
  extra_gso_features :: u16

text \<open>The entries of the receive ring, and more constants of
  \<open>xen/interface/io/netif.h\<close> and \<open>errno.h\<close>. A status is an \<open>int16_t\<close>, read with
  \<open>sint\<close>.\<close>

definition XEN_NETRXF_data_validated :: u16 where "XEN_NETRXF_data_validated = 1"
definition XEN_NETRXF_csum_blank :: u16 where "XEN_NETRXF_csum_blank = 2"
definition XEN_NETRXF_more_data :: u16 where "XEN_NETRXF_more_data = 4"
definition XEN_NETRXF_extra_info :: u16 where "XEN_NETRXF_extra_info = 8"
definition RX_COPY_THRESHOLD :: int where "RX_COPY_THRESHOLD = 256"
definition EBADR :: int where "EBADR = 53"
definition ENOENT :: int where "ENOENT = 2"
definition E2BIG :: int where "E2BIG = 7"

record xen_netif_rx_request =
  rxreq_id :: u16
  rxreq_gref :: grant_ref_t

record xen_netif_rx_response =
  rxrsp_id :: u16
  rxrsp_offset :: u16
  rxrsp_flags :: u16
  rxrsp_status :: u16

text \<open>\<open>struct rx_slot\<close>: a buffer pointer, \<open>None\<close> for \<open>NULL\<close>, and a grant reference. A
  receive buffer has one owner at a time (a slot, the batch queue, or a queue of the poll
  loop), so the buffer itself stands for the pointer to it.\<close>

record rx_slot =
  rx_skb :: "sk_buff option"
  rx_gref :: grant_ref_t

subsection \<open>The driver's state\<close>

text \<open>
  \<open>struct netfront_info\<close>, with the device it belongs to, the shared rings, the grant
  table, the reference counts of the transmit buffers, and the receive buffers handed to
  the network stack (\<open>rx_delivered\<close>) or freed (\<open>rx_freed\<close>). A front ring is its private indices
  \<open>req_prod_pvt\<close>, \<open>rsp_cons\<close> and its size \<open>nr_ents\<close>; the shared ring is its four
  indices and its entries. An entry of a shared ring is a union: it is kept as one array
  per view (request, response, extra info), indexed by the masked ring index, and a write
  through one view leaves the others as they were; the overlay of the views in memory is
  not modelled. \<open>tx_max_target\<close> is \<open>TX_MAX_TARGET(np->nr_ring_pages)\<close> and
  \<open>net_rx_ring_size\<close> is \<open>NET_RX_RING_SIZE(np->nr_ring_pages)\<close>: the macros that size a
  ring from its pages are not in the file.
\<close>

record netfront_info =
  netdev :: net_device
  stats_tx_bytes :: u64
  stats_tx_packets :: u64
  tx_skb_freelist :: u32
  tx_slots :: "nat \<Rightarrow> tx_slot"
  tx_req_prod_pvt :: RING_IDX
  tx_rsp_cons :: RING_IDX
  tx_nr_ents :: u32
  tx_sring_req_prod :: RING_IDX
  tx_sring_req_event :: RING_IDX
  tx_sring_rsp_prod :: RING_IDX
  tx_sring_rsp_event :: RING_IDX
  tx_ring_req :: "nat \<Rightarrow> xen_netif_tx_request"
  tx_ring_extra :: "nat \<Rightarrow> xen_netif_extra_info"
  tx_ring_rsp :: "nat \<Rightarrow> xen_netif_tx_response"
  gref_tx_head :: "grant_ref_t list"
  tx_max_target :: int
  gnttab :: "grant_ref_t \<Rightarrow> grant_entry"
  skb_users :: "u64 \<Rightarrow> nat"
  irq_notifies :: nat
  stats_rx_packets :: u64
  stats_rx_bytes :: u64
  rx_req_prod_pvt :: RING_IDX
  rx_rsp_cons :: RING_IDX
  rx_nr_ents :: u32
  rx_sring_req_prod :: RING_IDX
  rx_sring_req_event :: RING_IDX
  rx_sring_rsp_prod :: RING_IDX
  rx_sring_rsp_event :: RING_IDX
  rx_ring_req :: "nat \<Rightarrow> xen_netif_rx_request"
  rx_ring_rsp :: "nat \<Rightarrow> xen_netif_rx_response"
  rx_ring_extra :: "nat \<Rightarrow> xen_netif_extra_info"
  rx_slots :: "nat \<Rightarrow> rx_slot"
  gref_rx_head :: "grant_ref_t list"
  net_rx_ring_size :: u32
  rx_min_target :: u32
  rx_target :: u32
  rx_max_target :: u32
  rx_batch :: "sk_buff list"
  rx_refill_timer :: bool
  napi_scheduled :: bool
  rx_delivered :: "sk_buff list"
  rx_freed :: "sk_buff list"

text \<open>The slot of a ring index: \<open>idx & (RING_SIZE(&np->tx) - 1)\<close>.\<close>

definition tx_idx :: "netfront_info \<Rightarrow> RING_IDX \<Rightarrow> nat" where
  "tx_idx np i = unat (i AND (tx_nr_ents np - 1))"

subsection \<open>Transmit completions: \<open>xennet_tx_buf_gc\<close>\<close>

text \<open>\<open>netfront_tx_slot_available\<close>: the comparison is one of \<open>unsigned long\<close>, since
  \<open>MAX_SKB_FRAGS\<close> is.\<close>

definition netfront_tx_slot_available :: "netfront_info \<Rightarrow> bool" where
  "netfront_tx_slot_available np =
     (int (unat (tx_req_prod_pvt np - tx_rsp_cons np))
        < (tx_max_target np - int MAX_SKB_FRAGS - 2) mod 2 ^ 64)"

definition xennet_maybe_wake_tx :: "netfront_info \<Rightarrow> netfront_info" where
  "xennet_maybe_wake_tx np =
     (if queue_stopped (netdev np) \<and> netfront_tx_slot_available np \<and> running (netdev np)
      then np\<lparr>netdev := (netdev np)\<lparr>queue_stopped := False\<rparr>\<rparr> else np)"

text \<open>The body of the \<open>for\<close> loop of \<open>xennet_tx_buf_gc\<close>, for the response at ring index
  \<open>cons\<close>.\<close>

definition tx_buf_gc_response :: "netfront_info \<Rightarrow> RING_IDX \<Rightarrow> bug + netfront_info" where
  "tx_buf_gc_response np cons =
     (let txrsp = tx_ring_rsp np (tx_idx np cons) in
      if sint (txrsp_status txrsp) = XEN_NETIF_RSP_NULL then Inr np
      else
        let idn = txrsp_id txrsp;
            skb = link (tx_slots np (unat idn));
            g = gref (tx_slots np (unat idn))
        in if gnttab_query_foreign_access (gnttab np) g then Inl BUG_grant_in_use
           else
             let gt = snd (gnttab_end_foreign_access_ref (gnttab np) g);
                 pool = gnttab_release_grant_reference (gref_tx_head np) g;
                 slots = (tx_slots np)(unat idn := (tx_slots np (unat idn))\<lparr>gref := GRANT_INVALID_REF\<rparr>);
                 (head, slots') = add_id_to_freelist (tx_skb_freelist np) slots idn
             in Inr (np\<lparr>gnttab := gt, gref_tx_head := pool, tx_slots := slots',
                       tx_skb_freelist := head,
                       skb_users := dev_kfree_skb (skb_users np) skb\<rparr>))"

text \<open>\<open>for (cons = np->tx.rsp_cons; cons != prod; cons++)\<close>.\<close>

function xennet_tx_buf_gc_scan :: "netfront_info \<Rightarrow> RING_IDX \<Rightarrow> RING_IDX \<Rightarrow> bug + netfront_info" where
  "xennet_tx_buf_gc_scan np cons prd =
     (if cons = prd then Inr np
      else case tx_buf_gc_response np cons of
             Inl b \<Rightarrow> Inl b
           | Inr np' \<Rightarrow> xennet_tx_buf_gc_scan np' (cons + 1) prd)"
  by pat_completeness auto
termination
proof (relation "measure (\<lambda>(np, cons, prd). unat (prd - cons))")
  show "wf (measure (\<lambda>(np, cons, prd). unat (prd - cons)))" by simp
next
  fix np :: netfront_info and cons prd :: RING_IDX and np' :: netfront_info
  assume "cons \<noteq> prd"
  then have "prd - cons \<noteq> 0" by simp
  then have "unat (prd - cons - 1) < unat (prd - cons)" by (rule measure_unat)
  then show "((np', cons + 1, prd), (np, cons, prd)) \<in> measure (\<lambda>(np, cons, prd). unat (prd - cons))"
    by (simp add: diff_diff_eq add.commute)
qed

declare xennet_tx_buf_gc_scan.simps [simp del]

text \<open>
  One pass of the \<open>do ... while\<close> loop of \<open>xennet_tx_buf_gc\<close>: read the shared response
  producer, run the \<open>for\<close> loop up to it, store the consumer and the new event marker.
\<close>

definition xennet_tx_buf_gc_pass :: "netfront_info \<Rightarrow> bug + netfront_info" where
  "xennet_tx_buf_gc_pass np =
     (let prd = tx_sring_rsp_prod np in
      case xennet_tx_buf_gc_scan np (tx_rsp_cons np) prd of
        Inl b \<Rightarrow> Inl b
      | Inr np1 \<Rightarrow>
          Inr (np1\<lparr>tx_rsp_cons := prd,
                   tx_sring_rsp_event :=
                     prd + drop_bit 1 (tx_sring_req_prod np1 - prd) + 1\<rparr>))"

text \<open>
  The loop \<open>do ... while ((cons == prod) && (prod != np->tx.sring->rsp_prod))\<close>. After
  the \<open>for\<close> loop \<open>cons == prod\<close> holds, and \<open>prod\<close> is the consumer just stored. The
  peer writes \<open>rsp_prod\<close> while the driver runs: \<open>later\<close> lists the values it stores,
  one before each evaluation of the loop condition, and when the list is used up the
  peer has stored nothing more.
\<close>

fun xennet_tx_buf_gc_loop :: "netfront_info \<Rightarrow> RING_IDX list \<Rightarrow> bug + netfront_info" where
  "xennet_tx_buf_gc_loop np later =
     (case xennet_tx_buf_gc_pass np of
        Inl b \<Rightarrow> Inl b
      | Inr np2 \<Rightarrow>
          (case later of
             [] \<Rightarrow> Inr np2
           | p # ps \<Rightarrow>
               if tx_rsp_cons np2 \<noteq> p
               then xennet_tx_buf_gc_loop (np2\<lparr>tx_sring_rsp_prod := p\<rparr>) ps
               else Inr np2))"

declare xennet_tx_buf_gc_loop.simps [simp del]

text \<open>The ids of the completions that a pass from \<open>cons\<close> up to \<open>prod\<close> observes: those
  of the responses at the ring indices \<open>cons, cons + 1, ..., prod - 1\<close> whose status is not
  \<open>XEN_NETIF_RSP_NULL\<close>.\<close>

definition tx_completed_ids :: "netfront_info \<Rightarrow> RING_IDX \<Rightarrow> RING_IDX \<Rightarrow> u16 list" where
  "tx_completed_ids np cons prd =
     map txrsp_id
       (filter (\<lambda>r. sint (txrsp_status r) \<noteq> XEN_NETIF_RSP_NULL)
          (map (\<lambda>k. tx_ring_rsp np (tx_idx np (cons + of_nat k))) [0..<unat (prd - cons)]))"

definition xennet_tx_buf_gc :: "netfront_info \<Rightarrow> RING_IDX list \<Rightarrow> bug + netfront_info" where
  "xennet_tx_buf_gc np later =
     (if \<not> carrier_ok (netdev np) then Inl BUG_carrier_off
      else case xennet_tx_buf_gc_loop np later of
             Inl b \<Rightarrow> Inl b
           | Inr np' \<Rightarrow> Inr (xennet_maybe_wake_tx np'))"

subsection \<open>Transmission: \<open>xennet_make_frags\<close> and \<open>xennet_start_xmit\<close>\<close>

text \<open>
  Modelled from the spec: \<open>RING_PUSH_REQUESTS_AND_CHECK_NOTIFY\<close> is a macro of
  \<open>xen/interface/io/ring.h\<close>, which is not in the driver's file. Section 4.1 of the
  specification: \<open>publish\<close> copies the private producer into the shared producer
  counter and compares the previous and the new producer against the peer's event marker
  to decide whether a notification must be sent.
\<close>

definition tx_push_requests_and_check_notify :: "netfront_info \<Rightarrow> bool \<times> netfront_info" where
  "tx_push_requests_and_check_notify np =
     (let old = tx_sring_req_prod np; new = tx_req_prod_pvt np
      in (new - tx_sring_req_event np < new - old, np\<lparr>tx_sring_req_prod := new\<rparr>))"

definition DIV_ROUND_UP :: "nat \<Rightarrow> nat \<Rightarrow> nat" where
  "DIV_ROUND_UP n d = (n + d - 1) div d"

text \<open>
  The statements that both loops of \<open>xennet_make_frags\<close> share: take an id from the
  freelist, store a new reference to the buffer in its slot, take the request at \<open>prod\<close>,
  claim a grant reference, grant the peer read-only access to the frame, and fill the
  request. The result is the state and the slot of the new request.
\<close>

definition make_frags_request ::
  "netfront_info \<Rightarrow> sk_buff \<Rightarrow> RING_IDX \<Rightarrow> nat \<Rightarrow> u16 \<Rightarrow> u16 \<Rightarrow> bug + (netfront_info \<times> nat)" where
  "make_frags_request np skb prd mfn off sz =
     (let (idn, head) = get_id_from_freelist (tx_skb_freelist np) (tx_slots np);
          slots = (tx_slots np)(unat idn := (tx_slots np (unat idn))\<lparr>link := skb_addr skb\<rparr>);
          users = skb_get (skb_users np) (skb_addr skb);
          tx = tx_idx np prd;
          (ref, pool) = gnttab_claim_grant_reference (gref_tx_head np)
      in if ref_negative ref then Inl BUG_no_grant
         else Inr (np\<lparr>tx_skb_freelist := head,
                       tx_slots := slots(unat idn := (slots (unat idn))\<lparr>gref := ref\<rparr>),
                       skb_users := users,
                       gref_tx_head := pool,
                       gnttab := gnttab_grant_foreign_access_ref (gnttab np) ref mfn True,
                       tx_ring_req := (tx_ring_req np)(tx :=
                          \<lparr>txreq_gref = ref, txreq_offset = off, txreq_flags = 0,
                           txreq_id = idn, txreq_size = sz\<rparr>)\<rparr>, tx))"

text \<open>\<open>tx->flags |= XEN_NETTXF_more_data\<close> on the request in slot \<open>tx\<close>.\<close>

definition tx_set_more_data :: "netfront_info \<Rightarrow> nat \<Rightarrow> netfront_info" where
  "tx_set_more_data np tx =
     np\<lparr>tx_ring_req := (tx_ring_req np)(tx := (tx_ring_req np tx)
          \<lparr>txreq_flags := txreq_flags (tx_ring_req np tx) OR XEN_NETTXF_more_data\<rparr>)\<rparr>"

text \<open>
  \<open>while (len > PAGE_SIZE - offset)\<close>: \<open>tx\<close> is the slot of the current request, and
  the result is the state, the slot of the last request and \<open>prod\<close>. The comparison is
  one of \<open>unsigned long\<close>, false for an offset beyond the page size; the offset is
  \<open>offset_in_page(data)\<close> at first and 0 afterwards, hence below the page size.
\<close>

function make_frags_head ::
  "netfront_info \<Rightarrow> sk_buff \<Rightarrow> nat \<Rightarrow> RING_IDX \<Rightarrow> u64 \<Rightarrow> nat \<Rightarrow> nat
     \<Rightarrow> bug + (netfront_info \<times> nat \<times> RING_IDX)" where
  "make_frags_head np skb tx prd data offset hlen =
     (if offset < PAGE_SIZE \<and> hlen > PAGE_SIZE - offset then
        let sz = (of_nat (PAGE_SIZE - offset) :: u16);
            np1 = tx_set_more_data
                    (np\<lparr>tx_ring_req := (tx_ring_req np)(tx := (tx_ring_req np tx)\<lparr>txreq_size := sz\<rparr>)\<rparr>) tx;
            hlen' = hlen - unat sz;
            data' = data + ucast sz
        in case make_frags_request np1 skb prd (virt_to_mfn data') 0 (of_nat hlen') of
             Inl b \<Rightarrow> Inl b
           | Inr (np2, tx') \<Rightarrow> make_frags_head np2 skb tx' (prd + 1) data' 0 hlen'
      else Inr (np, tx, prd))"
  by pat_completeness auto
termination
proof (relation "measure (\<lambda>(np, skb, tx, prd, data, offset, hlen). hlen)")
  show "wf (measure (\<lambda>(np, skb, tx, prd, data, offset, hlen). hlen))" by simp
next
  fix np :: netfront_info and skb :: sk_buff and tx :: nat and prd :: RING_IDX
    and data :: u64 and offset hlen :: nat and sz :: u16 and np1 :: netfront_info
    and hlen' :: nat and data' :: u64 and x2 :: "netfront_info \<times> nat" and np2 :: netfront_info
    and tx' :: nat
  assume c: "offset < PAGE_SIZE \<and> PAGE_SIZE - offset < hlen"
    and sz: "sz = (of_nat (PAGE_SIZE - offset) :: u16)" and hlen': "hlen' = hlen - unat sz"
  have "PAGE_SIZE - offset < 2 ^ 16" by (simp add: PAGE_SIZE_def)
  then have "unat sz = PAGE_SIZE - offset"
    by (simp add: sz unat_of_nat)
  with c hlen' have "hlen' < hlen" by arith
  then show "((np2, skb, tx', prd + 1, data', 0, hlen'), (np, skb, tx, prd, data, offset, hlen))
      \<in> measure (\<lambda>(np, skb, tx, prd, data, offset, hlen). hlen)"
    by simp
qed

declare make_frags_head.simps [simp del]

text \<open>\<open>for (i = 0; i < frags; i++)\<close>, over the fragments \<open>frags[0 .. nr_frags - 1]\<close>.\<close>

fun make_frags_frags ::
  "netfront_info \<Rightarrow> sk_buff \<Rightarrow> nat \<Rightarrow> RING_IDX \<Rightarrow> skb_frag list
     \<Rightarrow> bug + (netfront_info \<times> nat \<times> RING_IDX)" where
  "make_frags_frags np skb tx prd [] = Inr (np, tx, prd)"
| "make_frags_frags np skb tx prd (frag # rest) =
     (case make_frags_request (tx_set_more_data np tx) skb prd (page_to_mfn (frag_page frag))
             (ucast (page_offset frag)) (ucast (frag_size frag)) of
        Inl b \<Rightarrow> Inl b
      | Inr (np2, tx') \<Rightarrow> make_frags_frags np2 skb tx' (prd + 1) rest)"

definition xennet_make_frags :: "netfront_info \<Rightarrow> sk_buff \<Rightarrow> nat \<Rightarrow> bug + netfront_info" where
  "xennet_make_frags np skb tx =
     (case make_frags_head np skb tx (tx_req_prod_pvt np) (skb_data skb)
             (offset_in_page (skb_data skb)) (unat (skb_headlen skb)) of
        Inl b \<Rightarrow> Inl b
      | Inr (np1, tx1, prd1) \<Rightarrow>
          (case make_frags_frags np1 skb tx1 prd1 (map (frags skb) [0..<nr_frags skb]) of
             Inl b \<Rightarrow> Inl b
           | Inr (np2, tx2, prd2) \<Rightarrow> Inr (np2\<lparr>tx_req_prod_pvt := prd2\<rparr>)))"

text \<open>The \<open>drop\<close> label of \<open>xennet_start_xmit\<close>.\<close>

definition xennet_start_xmit_drop :: "netfront_info \<Rightarrow> sk_buff \<Rightarrow> netfront_info" where
  "xennet_start_xmit_drop np skb =
     np\<lparr>netdev := (netdev np)\<lparr>tx_dropped := tx_dropped (netdev np) + 1\<rparr>,
        skb_users := dev_kfree_skb (skb_users np) (skb_addr skb)\<rparr>"

text \<open>The checksum flags of the first request.\<close>

definition tx_csum_flags :: "ip_summed_t \<Rightarrow> u16" where
  "tx_csum_flags s =
     (if s = CHECKSUM_PARTIAL then XEN_NETTXF_csum_blank OR XEN_NETTXF_data_validated
      else if s = CHECKSUM_UNNECESSARY then XEN_NETTXF_data_validated
      else 0)"

text \<open>
  \<open>xennet_start_xmit\<close> from \<open>i = np->tx.req_prod_pvt\<close> to \<open>tx->size = skb->len\<close>: the
  first request, the extra-info entry of a packet with a segment size, the remaining
  requests and the total length in the first request.
\<close>

definition xennet_start_xmit_requests :: "netfront_info \<Rightarrow> sk_buff \<Rightarrow> bug + netfront_info" where
  "xennet_start_xmit_requests np skb =
     (let i = tx_req_prod_pvt np;
          (idn, head) = get_id_from_freelist (tx_skb_freelist np) (tx_slots np);
          slots = (tx_slots np)(unat idn := (tx_slots np (unat idn))\<lparr>link := skb_addr skb\<rparr>);
          tx = tx_idx np i;
          (ref, pool) = gnttab_claim_grant_reference (gref_tx_head np)
      in if ref_negative ref then Inl BUG_no_grant
         else
           let np1 = np\<lparr>tx_skb_freelist := head,
                        tx_slots := slots(unat idn := (slots (unat idn))\<lparr>gref := ref\<rparr>),
                        gref_tx_head := pool,
                        gnttab := gnttab_grant_foreign_access_ref (gnttab np) ref
                                    (virt_to_mfn (skb_data skb)) True,
                        tx_ring_req := (tx_ring_req np)(tx :=
                          \<lparr>txreq_gref = ref,
                           txreq_offset = of_nat (offset_in_page (skb_data skb)),
                           txreq_flags = tx_csum_flags (ip_summed skb),
                           txreq_id = idn,
                           txreq_size = ucast (skb_headlen skb)\<rparr>)\<rparr>;
               np2 = (if gso_size skb \<noteq> 0 then
                        np1\<lparr>tx_ring_req := (tx_ring_req np1)(tx := (tx_ring_req np1 tx)
                               \<lparr>txreq_flags := txreq_flags (tx_ring_req np1 tx) OR XEN_NETTXF_extra_info\<rparr>),
                            tx_ring_extra := (tx_ring_extra np1)(tx_idx np (i + 1) :=
                               \<lparr>extra_type = XEN_NETIF_EXTRA_TYPE_GSO, extra_flags = 0,
                                extra_gso_size = gso_size skb,
                                extra_gso_type = XEN_NETIF_GSO_TYPE_TCPV4,
                                extra_gso_pad = 0, extra_gso_features = 0\<rparr>),
                            tx_req_prod_pvt := i + 1 + 1\<rparr>
                      else np1\<lparr>tx_req_prod_pvt := i + 1\<rparr>)
           in case xennet_make_frags np2 skb tx of
                Inl b \<Rightarrow> Inl b
              | Inr np3 \<Rightarrow>
                  Inr (np3\<lparr>tx_ring_req := (tx_ring_req np3)(tx := (tx_ring_req np3 tx)
                              \<lparr>txreq_size := ucast (len skb)\<rparr>)\<rparr>))"

text \<open>The fragment count \<open>frags\<close> that \<open>xennet_start_xmit\<close> computes: the sum
  \<open>offset + len\<close> is one of \<open>unsigned int\<close>.\<close>

definition xmit_frags :: "sk_buff \<Rightarrow> nat" where
  "xmit_frags skb =
     nr_frags skb
       + DIV_ROUND_UP ((offset_in_page (skb_data skb) + unat (skb_headlen skb)) mod 2 ^ 32) PAGE_SIZE"

text \<open>\<open>xennet_start_xmit(skb, dev)\<close>; \<open>later\<close> is passed to \<open>xennet_tx_buf_gc\<close>. The
  result is the return value and the state.\<close>

definition xennet_start_xmit ::
  "netfront_info \<Rightarrow> sk_buff \<Rightarrow> RING_IDX list \<Rightarrow> bug + (int \<times> netfront_info)" where
  "xennet_start_xmit np skb later =
     (let nfrags = xmit_frags skb
      in if nfrags > MAX_SKB_FRAGS + 1 then Inr (NETDEV_TX_OK, xennet_start_xmit_drop np skb)
         else if \<not> carrier_ok (netdev np) \<or> (nfrags > 1 \<and> \<not> xennet_can_sg (netdev np))
                   \<or> needs_gso skb
         then Inr (NETDEV_TX_OK, xennet_start_xmit_drop np skb)
         else
           (case xennet_start_xmit_requests np skb of
              Inl b \<Rightarrow> Inl b
            | Inr np1 \<Rightarrow>
                (let (notify, np2) = tx_push_requests_and_check_notify np1;
                     np3 = (if notify then np2\<lparr>irq_notifies := irq_notifies np2 + 1\<rparr> else np2);
                     np4 = np3\<lparr>stats_tx_bytes := stats_tx_bytes np3 + ucast (len skb),
                               stats_tx_packets := stats_tx_packets np3 + 1\<rparr>
                 in (case xennet_tx_buf_gc np4 later of
                       Inl b \<Rightarrow> Inl b
                     | Inr np5 \<Rightarrow>
                         Inr (NETDEV_TX_OK,
                              if \<not> netfront_tx_slot_available np5
                              then np5\<lparr>netdev := (netdev np5)\<lparr>queue_stopped := True\<rparr>\<rparr>
                              else np5)))))"

subsection \<open>Receive slots\<close>

text \<open>\<open>xennet_rxidx\<close>, and the slot of a ring index in the receive ring.\<close>

definition xennet_rxidx :: "netfront_info \<Rightarrow> RING_IDX \<Rightarrow> nat" where
  "xennet_rxidx np idx = unat (idx AND (net_rx_ring_size np - 1))"

definition rx_idx :: "netfront_info \<Rightarrow> RING_IDX \<Rightarrow> nat" where
  "rx_idx np i = unat (i AND (rx_nr_ents np - 1))"

definition xennet_get_rx_skb :: "netfront_info \<Rightarrow> RING_IDX \<Rightarrow> sk_buff option \<times> netfront_info" where
  "xennet_get_rx_skb np ri =
     (let i = xennet_rxidx np ri
      in (rx_skb (rx_slots np i),
          np\<lparr>rx_slots := (rx_slots np)(i := (rx_slots np i)\<lparr>rx_skb := None\<rparr>)\<rparr>))"

definition xennet_get_rx_ref :: "netfront_info \<Rightarrow> RING_IDX \<Rightarrow> grant_ref_t \<times> netfront_info" where
  "xennet_get_rx_ref np ri =
     (let i = xennet_rxidx np ri
      in (rx_gref (rx_slots np i),
          np\<lparr>rx_slots := (rx_slots np)(i := (rx_slots np i)\<lparr>rx_gref := GRANT_INVALID_REF\<rparr>)\<rparr>))"

definition xennet_move_rx_slot ::
  "netfront_info \<Rightarrow> sk_buff option \<Rightarrow> grant_ref_t \<Rightarrow> bug + netfront_info" where
  "xennet_move_rx_slot np skb ref =
     (let new = xennet_rxidx np (rx_req_prod_pvt np)
      in if rx_skb (rx_slots np new) \<noteq> None then Inl BUG_slot_busy
         else Inr (np\<lparr>rx_slots := (rx_slots np)(new := \<lparr>rx_skb = skb, rx_gref = ref\<rparr>),
                       rx_ring_req := (rx_ring_req np)(rx_idx np (rx_req_prod_pvt np) :=
                          \<lparr>rxreq_id = of_nat new, rxreq_gref = ref\<rparr>),
                       rx_req_prod_pvt := rx_req_prod_pvt np + 1\<rparr>))"

subsection \<open>Parsing responses: \<open>xennet_get_extras\<close> and \<open>xennet_get_responses\<close>\<close>

text \<open>
  The \<open>do ... while (extra->flags & XEN_NETIF_EXTRA_FLAG_MORE)\<close> loop of
  \<open>xennet_get_extras\<close>, from the local \<open>cons\<close> and \<open>err\<close>; \<open>extras\<close> is the array
  of \<open>struct netfront_rx_info\<close>. The result is the state, the array, \<open>cons\<close> and
  \<open>err\<close>.
\<close>

function xennet_get_extras_loop ::
  "netfront_info \<Rightarrow> (nat \<Rightarrow> xen_netif_extra_info) \<Rightarrow> RING_IDX \<Rightarrow> RING_IDX \<Rightarrow> int
     \<Rightarrow> bug + (netfront_info \<times> (nat \<Rightarrow> xen_netif_extra_info) \<times> RING_IDX \<times> int)" where
  "xennet_get_extras_loop np extras rp cons err =
     (if cons + 1 = rp then Inr (np, extras, cons, - EBADR)
      else
        let cons' = cons + 1;
            extra = rx_ring_extra np (rx_idx np cons');
            bad = (extra_type extra = 0 \<or> extra_type extra \<ge> XEN_NETIF_EXTRA_TYPE_MAX);
            err' = (if bad then - EINVAL else err);
            extras' = (if bad then extras else extras(unat (extra_type extra) - 1 := extra));
            (skb, np1) = xennet_get_rx_skb np cons';
            (ref, np2) = xennet_get_rx_ref np1 cons'
        in case xennet_move_rx_slot np2 skb ref of
             Inl b \<Rightarrow> Inl b
           | Inr np3 \<Rightarrow>
               if extra_flags extra AND XEN_NETIF_EXTRA_FLAG_MORE \<noteq> 0
               then xennet_get_extras_loop np3 extras' rp cons' err'
               else Inr (np3, extras', cons', err'))"
  by pat_completeness auto
termination
proof (relation "measure (\<lambda>(np, extras, rp, cons, err). unat (rp - cons - 1))")
  show "wf (measure (\<lambda>(np, extras, rp, cons, err). unat (rp - cons - 1)))" by simp
next
  fix np np3 :: netfront_info and extras extras' :: "nat \<Rightarrow> xen_netif_extra_info"
    and rp cons cons' :: RING_IDX and err err' :: int
  assume "cons + 1 \<noteq> rp" and c: "cons' = cons + 1"
  then have "rp - cons - 1 \<noteq> 0" by (metis add.commute diff_add_cancel diff_diff_eq right_minus_eq)
  then have "unat (rp - cons - 1 - 1) < unat (rp - cons - 1)" by (rule measure_unat)
  then show "((np3, extras', rp, cons', err'), (np, extras, rp, cons, err))
      \<in> measure (\<lambda>(np, extras, rp, cons, err). unat (rp - cons - 1))"
    by (simp add: c diff_diff_eq)
qed

declare xennet_get_extras_loop.simps [simp del]

text \<open>\<open>xennet_get_extras\<close>: the result is the return value, the array and the state.\<close>

definition xennet_get_extras ::
  "netfront_info \<Rightarrow> (nat \<Rightarrow> xen_netif_extra_info) \<Rightarrow> RING_IDX
     \<Rightarrow> bug + (int \<times> (nat \<Rightarrow> xen_netif_extra_info) \<times> netfront_info)" where
  "xennet_get_extras np extras rp =
     (case xennet_get_extras_loop np extras rp (rx_rsp_cons np) 0 of
        Inl b \<Rightarrow> Inl b
      | Inr (np', extras', cons, err) \<Rightarrow> Inr (err, extras', np'\<lparr>rx_rsp_cons := cons\<rparr>))"

text \<open>
  The body of the \<open>for (;;)\<close> loop of \<open>xennet_get_responses\<close> down to the label
  \<open>next\<close>, for the response \<open>rx\<close> with the buffer \<open>skb\<close> and the grant reference
  \<open>ref\<close> taken from its slot: a status below 0 or an offset plus status beyond the page
  puts buffer and reference back on the ring, an invalid reference is an error, and
  every other fragment has its access ended, its reference released and its buffer
  queued on \<open>list\<close>. The result is the state, the list and \<open>err\<close>.
\<close>

definition xennet_get_responses_slot ::
  "netfront_info \<Rightarrow> sk_buff list \<Rightarrow> xen_netif_rx_response \<Rightarrow> sk_buff option \<Rightarrow> grant_ref_t
     \<Rightarrow> int \<Rightarrow> bug + (netfront_info \<times> sk_buff list \<times> int)" where
  "xennet_get_responses_slot np list rx skb ref err =
     (if sint (rxrsp_status rx) < 0
           \<or> uint (rxrsp_offset rx) + sint (rxrsp_status rx) > int PAGE_SIZE
      then (case xennet_move_rx_slot np skb ref of
              Inl b \<Rightarrow> Inl b
            | Inr np' \<Rightarrow> Inr (np', list, - EINVAL))
      else if ref = GRANT_INVALID_REF then Inr (np, list, - EINVAL)
      else (case gnttab_end_foreign_access_ref (gnttab np) ref of
              (ret, gt) \<Rightarrow>
                if \<not> ret then Inl BUG_end_access
                else (case skb of
                        None \<Rightarrow> Inl OOPS_null_skb
                      | Some b \<Rightarrow>
                          Inr (np\<lparr>gnttab := gt,
                                  gref_rx_head :=
                                    gnttab_release_grant_reference (gref_rx_head np) ref\<rparr>,
                               list @ [b], err))))"

text \<open>
  The \<open>for (;;)\<close> loop of \<open>xennet_get_responses\<close>. \<open>frags\<close> counts the responses of
  the chain; it is a natural number here (the C \<open>int\<close> holds it as long as the ring
  indices are less than \<open>2^31\<close> apart). The result is the state, the list, \<open>frags\<close> and
  \<open>err\<close>.
\<close>

function xennet_get_responses_loop ::
  "netfront_info \<Rightarrow> sk_buff list \<Rightarrow> xen_netif_rx_response \<Rightarrow> sk_buff option \<Rightarrow> grant_ref_t
     \<Rightarrow> RING_IDX \<Rightarrow> nat \<Rightarrow> int \<Rightarrow> RING_IDX
     \<Rightarrow> bug + (netfront_info \<times> sk_buff list \<times> nat \<times> int)" where
  "xennet_get_responses_loop np list rx skb ref cons nfrags err rp =
     (case xennet_get_responses_slot np list rx skb ref err of
        Inl b \<Rightarrow> Inl b
      | Inr (np1, list1, err1) \<Rightarrow>
          if rxrsp_flags rx AND XEN_NETRXF_more_data = 0 then Inr (np1, list1, nfrags, err1)
          else if cons + of_nat nfrags = rp then Inr (np1, list1, nfrags, - ENOENT)
          else
            let rx' = rx_ring_rsp np1 (rx_idx np1 (cons + of_nat nfrags));
                (skb', np2) = xennet_get_rx_skb np1 (cons + of_nat nfrags);
                (ref', np3) = xennet_get_rx_ref np2 (cons + of_nat nfrags)
            in xennet_get_responses_loop np3 list1 rx' skb' ref' cons (nfrags + 1) err1 rp)"
  by pat_completeness auto
termination
proof (relation "measure (\<lambda>(np, list, rx, skb, ref, cons, nfrags, err, rp).
                            unat (rp - (cons + of_nat nfrags)))")
  show "wf (measure (\<lambda>(np, list, rx, skb, ref, cons, nfrags, err, rp).
                            unat (rp - (cons + of_nat nfrags))))" by simp
next
  fix np np3 :: netfront_info and list list1 :: "sk_buff list"
    and rx rx' :: xen_netif_rx_response and skb skb' :: "sk_buff option"
    and ref ref' :: grant_ref_t and cons rp :: RING_IDX and nfrags :: nat and err err1 :: int
  assume "cons + of_nat nfrags \<noteq> rp"
  then have "rp - (cons + of_nat nfrags) \<noteq> 0" by simp
  then have "unat (rp - (cons + of_nat nfrags) - 1) < unat (rp - (cons + of_nat nfrags))"
    by (rule measure_unat)
  then show "((np3, list1, rx', skb', ref', cons, nfrags + 1, err1, rp),
              (np, list, rx, skb, ref, cons, nfrags, err, rp))
      \<in> measure (\<lambda>(np, list, rx, skb, ref, cons, nfrags, err, rp).
                     unat (rp - (cons + of_nat nfrags)))"
    by (simp add: diff_diff_eq ac_simps)
qed

declare xennet_get_responses_loop.simps [simp del]

text \<open>The limit \<open>max\<close> of \<open>xennet_get_responses\<close>:
  \<open>MAX_SKB_FRAGS + (rx->status <= RX_COPY_THRESHOLD)\<close>.\<close>

definition rx_max_frags :: "xen_netif_rx_response \<Rightarrow> int" where
  "rx_max_frags rx =
     int MAX_SKB_FRAGS + (if sint (rxrsp_status rx) \<le> RX_COPY_THRESHOLD then 1 else 0)"

text \<open>
  \<open>xennet_get_responses(np, rinfo, rp, list)\<close>, with \<open>rx\<close> and \<open>extras\<close> the two
  members of \<open>rinfo\<close>. The result is the return value, the array of extras, the list and
  the state.
\<close>

definition xennet_get_responses ::
  "netfront_info \<Rightarrow> xen_netif_rx_response \<Rightarrow> (nat \<Rightarrow> xen_netif_extra_info) \<Rightarrow> RING_IDX
     \<Rightarrow> sk_buff list
     \<Rightarrow> bug + (int \<times> (nat \<Rightarrow> xen_netif_extra_info) \<times> sk_buff list \<times> netfront_info)" where
  "xennet_get_responses np rx extras rp list =
     (let (skb, np1) = xennet_get_rx_skb np (rx_rsp_cons np);
          (ref, np2) = xennet_get_rx_ref np1 (rx_rsp_cons np)
      in case (if rxrsp_flags rx AND XEN_NETRXF_extra_info \<noteq> 0
               then xennet_get_extras np2 extras rp
               else Inr (0, extras, np2)) of
           Inl b \<Rightarrow> Inl b
         | Inr (err0, extras', np3) \<Rightarrow>
             (let cons = rx_rsp_cons np3
              in case xennet_get_responses_loop np3 list rx skb ref cons 1 err0 rp of
                   Inl b \<Rightarrow> Inl b
                 | Inr (np4, list', nfrags, err1) \<Rightarrow>
                     (let err2 = (if int nfrags > rx_max_frags rx then - E2BIG else err1)
                      in Inr (err2, extras', list',
                              if err2 \<noteq> 0
                              then np4\<lparr>rx_rsp_cons := cons + of_nat nfrags\<rparr>
                              else np4))))"

subsection \<open>Notions for the statements about transmission\<close>

text \<open>The two tests of \<open>xennet_start_xmit\<close> that lead to the \<open>drop\<close> label, as one
  predicate of the state and the packet.\<close>

definition tx_packet_dropped :: "netfront_info \<Rightarrow> sk_buff \<Rightarrow> bool" where
  "tx_packet_dropped np skb \<longleftrightarrow>
     xmit_frags skb > MAX_SKB_FRAGS + 1
   \<or> \<not> carrier_ok (netdev np)
   \<or> (xmit_frags skb > 1 \<and> \<not> xennet_can_sg (netdev np))
   \<or> needs_gso skb"

text \<open>The number of extra-info entries of a packet: one when it has a segment size.\<close>

definition tx_gso_entries :: "sk_buff \<Rightarrow> nat" where
  "tx_gso_entries skb = (if gso_size skb \<noteq> 0 then 1 else 0)"

text \<open>The number of requests that \<open>xennet_make_frags\<close> adds after the first one: the
  page-sized chunks of the head beyond the first, and the fragments.\<close>

definition tx_more_requests :: "sk_buff \<Rightarrow> nat" where
  "tx_more_requests skb =
     (offset_in_page (skb_data skb) + unat (skb_headlen skb) - 1) div PAGE_SIZE + nr_frags skb"

text \<open>The ring index of the \<open>j\<close>-th request of a packet submitted at \<open>req_prod_pvt\<close>: the
  extra-info entry, when there is one, follows the first request.\<close>

definition tx_request_index :: "netfront_info \<Rightarrow> sk_buff \<Rightarrow> nat \<Rightarrow> RING_IDX" where
  "tx_request_index np skb j =
     tx_req_prod_pvt np + (if j = 0 then 0 else of_nat (tx_gso_entries skb + j))"

subsection \<open>Notions for the proofs about transmission\<close>

text \<open>The slots of the \<open>n\<close> ring indices from \<open>p\<close> on.\<close>

definition tx_slots_from :: "netfront_info \<Rightarrow> RING_IDX \<Rightarrow> nat \<Rightarrow> nat list" where
  "tx_slots_from np p n = map (\<lambda>j. tx_idx np (p + of_nat j)) [0..<n]"

text \<open>
  A step from \<open>np\<close> with current request slot \<open>tx\<close> to \<open>np'\<close> with current slot \<open>tx'\<close>
  that has appended requests in the slots \<open>new\<close>: \<open>tx\<close> has gained the more-data flag
  if a request followed it, every new request but the last has exactly that flag, the
  last has none, and the other slots are as they were.
\<close>

definition tx_chain_ext :: "netfront_info \<Rightarrow> nat \<Rightarrow> nat list \<Rightarrow> netfront_info \<Rightarrow> nat \<Rightarrow> bool" where
  "tx_chain_ext np tx new np' tx' \<longleftrightarrow>
     tx' = last (tx # new)
   \<and> (\<forall>s. s \<notin> set (tx # new) \<longrightarrow> tx_ring_req np' s = tx_ring_req np s)
   \<and> txreq_flags (tx_ring_req np' tx)
       = (if new = [] then txreq_flags (tx_ring_req np tx)
          else txreq_flags (tx_ring_req np tx) OR XEN_NETTXF_more_data)
   \<and> (\<forall>j<length new. txreq_flags (tx_ring_req np' (new ! j))
          = (if Suc j < length new then XEN_NETTXF_more_data else 0))"

text \<open>What the writing of requests leaves alone.\<close>

definition tx_submit_keeps :: "netfront_info \<Rightarrow> netfront_info \<Rightarrow> bool" where
  "tx_submit_keeps np np' \<longleftrightarrow>
     netdev np' = netdev np \<and> stats_tx_bytes np' = stats_tx_bytes np
   \<and> stats_tx_packets np' = stats_tx_packets np \<and> tx_req_prod_pvt np' = tx_req_prod_pvt np
   \<and> tx_rsp_cons np' = tx_rsp_cons np \<and> tx_nr_ents np' = tx_nr_ents np
   \<and> tx_sring_req_prod np' = tx_sring_req_prod np \<and> tx_sring_req_event np' = tx_sring_req_event np
   \<and> tx_sring_rsp_prod np' = tx_sring_rsp_prod np \<and> tx_sring_rsp_event np' = tx_sring_rsp_event np
   \<and> tx_ring_extra np' = tx_ring_extra np \<and> tx_ring_rsp np' = tx_ring_rsp np
   \<and> tx_max_target np' = tx_max_target np \<and> irq_notifies np' = irq_notifies np"

text \<open>What \<open>xennet_tx_buf_gc\<close> leaves alone.\<close>

definition tx_gc_keeps :: "netfront_info \<Rightarrow> netfront_info \<Rightarrow> bool" where
  "tx_gc_keeps np np' \<longleftrightarrow>
     tx_dropped (netdev np') = tx_dropped (netdev np) \<and> carrier_ok (netdev np') = carrier_ok (netdev np)
   \<and> stats_tx_bytes np' = stats_tx_bytes np
   \<and> stats_tx_packets np' = stats_tx_packets np \<and> tx_req_prod_pvt np' = tx_req_prod_pvt np
   \<and> tx_nr_ents np' = tx_nr_ents np
   \<and> tx_sring_req_prod np' = tx_sring_req_prod np \<and> tx_sring_req_event np' = tx_sring_req_event np
   \<and> tx_ring_req np' = tx_ring_req np
   \<and> tx_ring_extra np' = tx_ring_extra np \<and> tx_ring_rsp np' = tx_ring_rsp np
   \<and> tx_max_target np' = tx_max_target np \<and> irq_notifies np' = irq_notifies np"

subsection \<open>Sequences of submissions and completions\<close>





subsection \<open>Notions for the statement about descriptor ids\<close>









subsection \<open>Notions for the proofs about descriptor ids\<close>



subsection \<open>A state to run the driver on\<close>

text \<open>A receive buffer as \<open>xennet_alloc_rx_buffers\<close> makes it: an empty head and one
  fragment holding a fresh page.\<close>

definition rx_buffer :: "nat \<Rightarrow> sk_buff" where
  "rx_buffer i =
     \<lparr>skb_addr = 0xFFFF880000100000 + 0x1000 * of_nat i, skb_data = 0xFFFF880000200000,
      len = 0, data_len = 0, truesize = 768,
      ip_summed = CHECKSUM_NONE, nr_frags = 1,
      frags = (\<lambda>_. \<lparr>frag_page = 5000 + i, page_offset = 0, frag_size = 0\<rparr>),
      gso_size = 0, gso_type = 0, gso_segs = 0, pull_to = 0, needs_gso = False\<rparr>"

text \<open>A connected device with two transmit requests in flight (ids 0 and 1), one
  completion, for id 1, in the transmit response ring, and 64 receive buffers posted.\<close>

definition np_example :: netfront_info where
  "np_example =
     \<lparr>netdev = \<lparr>carrier_ok = True, running = True, queue_stopped = False,
                 features = 1, mtu = 1500, tx_dropped = 0, rx_errors = 0\<rparr>,
      stats_tx_bytes = 0, stats_tx_packets = 0,
      tx_skb_freelist = 2,
      tx_slots = (\<lambda>i. \<lparr>link = of_nat (i + 1), gref = 0\<rparr>)
                   (0 := \<lparr>link = 0xFFFF880000001000, gref = 8\<rparr>,
                    1 := \<lparr>link = 0xFFFF880000002000, gref = 9\<rparr>),
      tx_req_prod_pvt = 6, tx_rsp_cons = 0, tx_nr_ents = 256,
      tx_sring_req_prod = 6, tx_sring_req_event = 1,
      tx_sring_rsp_prod = 2, tx_sring_rsp_event = 1,
      tx_ring_req = (\<lambda>_. \<lparr>txreq_gref = 0, txreq_offset = 0, txreq_flags = 0,
                            txreq_id = 0, txreq_size = 0\<rparr>),
      tx_ring_extra = (\<lambda>_. \<lparr>extra_type = 0, extra_flags = 0, extra_gso_size = 0,
                              extra_gso_type = 0, extra_gso_pad = 0, extra_gso_features = 0\<rparr>),
      tx_ring_rsp = (\<lambda>_. \<lparr>txrsp_id = 0, txrsp_status = 1\<rparr>)
                      (0 := \<lparr>txrsp_id = 1, txrsp_status = 0\<rparr>),
      gref_tx_head = [10, 11, 12, 13],
      tx_max_target = 256,
      gnttab = (\<lambda>_. \<lparr>granted = None, mapped = False\<rparr>)
                 (8 := \<lparr>granted = Some (1, True), mapped = False\<rparr>,
                  9 := \<lparr>granted = Some (2, True), mapped = False\<rparr>),
      skb_users = (\<lambda>_. 0)(0xFFFF880000001000 := 1, 0xFFFF880000002000 := 1),
      irq_notifies = 0,
      stats_rx_packets = 0, stats_rx_bytes = 0,
      rx_req_prod_pvt = 64, rx_rsp_cons = 0, rx_nr_ents = 256,
      rx_sring_req_prod = 64, rx_sring_req_event = 1,
      rx_sring_rsp_prod = 0, rx_sring_rsp_event = 1,
      rx_ring_req = (\<lambda>i. \<lparr>rxreq_id = of_nat i, rxreq_gref = 100 + of_nat i\<rparr>),
      rx_ring_rsp = (\<lambda>i. \<lparr>rxrsp_id = of_nat i, rxrsp_offset = 0, rxrsp_flags = 0,
                            rxrsp_status = 0\<rparr>),
      rx_ring_extra = (\<lambda>_. \<lparr>extra_type = 0, extra_flags = 0, extra_gso_size = 0,
                              extra_gso_type = 0, extra_gso_pad = 0, extra_gso_features = 0\<rparr>),
      rx_slots = (\<lambda>i. if i < 64 then \<lparr>rx_skb = Some (rx_buffer i), rx_gref = 100 + of_nat i\<rparr>
                      else \<lparr>rx_skb = None, rx_gref = 0\<rparr>),
      gref_rx_head = [300, 301, 302, 303],
      net_rx_ring_size = 256,
      rx_min_target = 64, rx_target = 64, rx_max_target = 256,
      rx_batch = [], rx_refill_timer = False, napi_scheduled = True,
      rx_delivered = [], rx_freed = []\<rparr>"

text \<open>A packet with a head of 1500 bytes at offset 64 of its page and two fragments, its
  checksum left to the device.\<close>

definition skb_example :: sk_buff where
  "skb_example =
     \<lparr>skb_addr = 0xFFFF880000003000, skb_data = 0xFFFF880000004040,
      len = 3500, data_len = 2000, truesize = 4096,
      ip_summed = CHECKSUM_PARTIAL, nr_frags = 2,
      frags = (\<lambda>_. \<lparr>frag_page = 0, page_offset = 0, frag_size = 0\<rparr>)
                (0 := \<lparr>frag_page = 77, page_offset = 0, frag_size = 1000\<rparr>,
                 1 := \<lparr>frag_page = 78, page_offset = 128, frag_size = 1000\<rparr>),
      gso_size = 0, gso_type = 0, gso_segs = 0, pull_to = 0, needs_gso = False\<rparr>"

text \<open>A packet whose head is empty and starts a page, with one fragment.\<close>

definition skb_headless :: sk_buff where
  "skb_headless =
     \<lparr>skb_addr = 0xFFFF880000003000, skb_data = 0xFFFF880000004000,
      len = 1000, data_len = 1000, truesize = 4096,
      ip_summed = CHECKSUM_NONE, nr_frags = 1,
      frags = (\<lambda>_. \<lparr>frag_page = 77, page_offset = 0, frag_size = 1000\<rparr>),
      gso_size = 0, gso_type = 0, gso_segs = 0, pull_to = 0, needs_gso = False\<rparr>"





section \<open>Properties\<close>

subsection \<open>MTU changes\<close>

text \<open>
  C9. For every requested MTU, \<open>xennet_change_mtu\<close> returns \<open>-EINVAL\<close> and leaves the
  device as it was exactly when the request exceeds the maximum, which is 65535 minus the
  Ethernet header length (65521) with scatter-gather enabled and the Ethernet data length
  (1500) otherwise; in every other case it stores the request as the device MTU, changes
  nothing else, and returns 0.
\<close>

theorem xennet_change_mtu_spec:
  fixes dev :: net_device and m :: u32
  defines "limit \<equiv> (if xennet_can_sg dev then 65521 else 1500 :: int)"
  shows "(fst (xennet_change_mtu dev m) = - EINVAL \<longleftrightarrow> limit < sint m)
       \<and> (fst (xennet_change_mtu dev m) = 0 \<longleftrightarrow> sint m \<le> limit)
       \<and> (limit < sint m \<longrightarrow> snd (xennet_change_mtu dev m) = dev)
       \<and> (sint m \<le> limit \<longrightarrow> snd (xennet_change_mtu dev m) = dev\<lparr>mtu := m\<rparr>)"
  by (simp add: limit_def xennet_change_mtu_def Let_def ETH_HLEN_def ETH_DATA_LEN_def
      EINVAL_def)

theorem xennet_change_mtu_spec_witness:
  "xennet_change_mtu \<lparr>carrier_ok = True, running = True, queue_stopped = False,
       features = 1, mtu = 1500, tx_dropped = 0, rx_errors = 0\<rparr> 9000
     = (0, \<lparr>carrier_ok = True, running = True, queue_stopped = False,
       features = 1, mtu = 9000, tx_dropped = 0, rx_errors = 0\<rparr>)
   \<and> xennet_change_mtu \<lparr>carrier_ok = True, running = True, queue_stopped = False,
       features = 0, mtu = 1500, tx_dropped = 0, rx_errors = 0\<rparr> 9000
     = (- 22, \<lparr>carrier_ok = True, running = True, queue_stopped = False,
       features = 0, mtu = 1500, tx_dropped = 0, rx_errors = 0\<rparr>)"
proof -
  let ?sg = "\<lparr>carrier_ok = True, running = True, queue_stopped = False,
       features = 1, mtu = 1500, tx_dropped = 0, rx_errors = 0\<rparr>"
  let ?nosg = "\<lparr>carrier_ok = True, running = True, queue_stopped = False,
       features = 0, mtu = 1500, tx_dropped = 0, rx_errors = 0\<rparr>"
  have sg: "xennet_can_sg ?sg" and nosg: "\<not> xennet_can_sg ?nosg"
    by (simp_all add: xennet_can_sg_def NETIF_F_SG_def)
  have "fst (xennet_change_mtu ?sg 9000) = 0"
    and "snd (xennet_change_mtu ?sg 9000) = ?sg\<lparr>mtu := 9000\<rparr>"
    using xennet_change_mtu_spec [of ?sg 9000] sg by simp_all
  moreover have "fst (xennet_change_mtu ?nosg 9000) = - EINVAL"
    and "snd (xennet_change_mtu ?nosg 9000) = ?nosg"
    using xennet_change_mtu_spec [of ?nosg 9000] nosg by simp_all
  ultimately show ?thesis
    by (simp add: prod_eq_iff EINVAL_def)
qed

subsection \<open>The freelist\<close>

text \<open>
  C10 (as amended). For every slot table, every id and every freelist head that fits an
  \<open>unsigned short\<close> (below 65536, as every head the driver itself stores is),
  \<open>add_id_to_freelist\<close> with that id followed by \<open>get_id_from_freelist\<close> returns the
  same id and restores the head to its prior value.
\<close>

theorem freelist_add_then_get:
  assumes "unat head < 65536"
  shows "(case add_id_to_freelist head list idn of
            (head', list') \<Rightarrow> get_id_from_freelist head' list') = (idn, head)"
proof -
  have "(ucast (ucast (ucast head :: u16) :: u64) :: u32) = head"
    using assms
    by (simp add: word_unat_eq_iff unsigned_ucast_eq unsigned_take_bit_eq take_bit_nat_eq_self)
  moreover have "(ucast (ucast idn :: u32) :: u16) = idn"
    and "unat (ucast idn :: u32) = unat idn"
    using unsigned_less [of idn, where 'a = nat]
    by (simp_all add: word_unat_eq_iff unsigned_ucast_eq unsigned_take_bit_eq
        take_bit_nat_eq_self)
  ultimately show ?thesis
    by (simp add: add_id_to_freelist_def get_id_from_freelist_def skb_entry_set_link_def
        Let_def)
qed

theorem freelist_add_then_get_witness:
  "(case add_id_to_freelist 5 (\<lambda>_. \<lparr>link = 0, gref = 0\<rparr>) 3 of
      (head', list') \<Rightarrow> get_id_from_freelist head' list') = (3, 5)"
  using freelist_add_then_get [of 5 "\<lambda>_. \<lparr>link = 0, gref = 0\<rparr>" 3] by simp

text \<open>The claim as stated, for every head: a head of 65536 does not survive, because
  \<open>skb_entry_set_link\<close> stores only its low 16 bits.\<close>

theorem freelist_add_then_get_counterexample:
  "(case add_id_to_freelist 65536 (\<lambda>_. \<lparr>link = 0, gref = 0\<rparr>) 3 of
      (head', list') \<Rightarrow> get_id_from_freelist head' list') = (3, 0)
   \<and> (0 :: u32) \<noteq> 65536"
  by (simp add: add_id_to_freelist_def get_id_from_freelist_def skb_entry_set_link_def Let_def)

subsection \<open>Transmit completions\<close>

lemma tx_buf_gc_response_keeps:
  assumes "tx_buf_gc_response np cons = Inr np'"
  shows "tx_ring_rsp np' = tx_ring_rsp np" and "tx_nr_ents np' = tx_nr_ents np"
    and "tx_sring_req_prod np' = tx_sring_req_prod np"
    and "tx_sring_rsp_prod np' = tx_sring_rsp_prod np"
    and "tx_req_prod_pvt np' = tx_req_prod_pvt np"
    and "tx_ring_req np' = tx_ring_req np"
    and "netdev np' = netdev np"
  using assms
  by (auto simp: tx_buf_gc_response_def Let_def split: if_splits prod.splits)

lemma tx_buf_gc_scan_done: "xennet_tx_buf_gc_scan np prd prd = Inr np"
  by (simp add: xennet_tx_buf_gc_scan.simps [of np prd prd])

lemma tx_buf_gc_scan_more:
  "cons \<noteq> prd \<Longrightarrow> xennet_tx_buf_gc_scan np cons prd =
     (case tx_buf_gc_response np cons of
        Inl b \<Rightarrow> Inl b
      | Inr np' \<Rightarrow> xennet_tx_buf_gc_scan np' (cons + 1) prd)"
  by (simp add: xennet_tx_buf_gc_scan.simps [of np cons prd])

lemma tx_buf_gc_scan_keeps:
  assumes "xennet_tx_buf_gc_scan np cons prd = Inr np'"
  shows "tx_ring_rsp np' = tx_ring_rsp np \<and> tx_nr_ents np' = tx_nr_ents np
    \<and> tx_sring_req_prod np' = tx_sring_req_prod np
    \<and> tx_sring_rsp_prod np' = tx_sring_rsp_prod np
    \<and> tx_req_prod_pvt np' = tx_req_prod_pvt np
    \<and> tx_ring_req np' = tx_ring_req np
    \<and> netdev np' = netdev np"
  using assms
proof (induction np cons prd rule: xennet_tx_buf_gc_scan.induct)
  case (1 np cons prd)
  show ?case
  proof (cases "cons = prd")
    case True
    with "1.prems" show ?thesis by (simp add: tx_buf_gc_scan_done)
  next
    case False
    with "1.prems" obtain np1 where r: "tx_buf_gc_response np cons = Inr np1"
      and s: "xennet_tx_buf_gc_scan np1 (cons + 1) prd = Inr np'"
      by (auto simp: tx_buf_gc_scan_more split: sum.splits)
    from "1.IH" [OF False r s] tx_buf_gc_response_keeps [OF r] show ?thesis by simp
  qed
qed

lemma tx_idx_cong: "tx_nr_ents np' = tx_nr_ents np \<Longrightarrow> tx_idx np' = tx_idx np"
  by (simp add: tx_idx_def fun_eq_iff)

lemma tx_completed_ids_cong:
  "tx_ring_rsp np' = tx_ring_rsp np \<Longrightarrow> tx_nr_ents np' = tx_nr_ents np
     \<Longrightarrow> tx_completed_ids np' = tx_completed_ids np"
  by (simp add: tx_completed_ids_def fun_eq_iff tx_idx_def)

lemma tx_completed_ids_step:
  assumes "cons \<noteq> prd"
  shows "tx_completed_ids np cons prd =
     (let r = tx_ring_rsp np (tx_idx np cons) in
      if sint (txrsp_status r) \<noteq> XEN_NETIF_RSP_NULL then [txrsp_id r] else [])
      @ tx_completed_ids np (cons + 1) prd"
proof -
  from assms have "prd - cons \<noteq> 0" by simp
  then have "unat (prd - cons) = Suc (unat (prd - cons - 1))"
    by (metis Suc_pred' unat_gt_0 unat_minus_one)
  then have n: "unat (prd - cons) = Suc (unat (prd - (cons + 1)))"
    by (simp add: diff_diff_eq add.commute)
  have "[0..<Suc (unat (prd - (cons + 1)))] = 0 # map Suc [0..<unat (prd - (cons + 1))]"
    by (simp add: upt_conv_Cons map_Suc_upt del: upt_Suc)
  then show ?thesis
    by (simp add: tx_completed_ids_def n Let_def o_def add.assoc del: upt_Suc)
qed

lemma tx_buf_gc_response_slots:
  assumes "tx_buf_gc_response np cons = Inr np'"
    and "l0 = (let r = tx_ring_rsp np (tx_idx np cons) in
      if sint (txrsp_status r) \<noteq> XEN_NETIF_RSP_NULL then [txrsp_id r] else [])"
  shows "\<forall>i. i \<notin> unat ` set l0 \<longrightarrow> tx_slots np' i = tx_slots np i"
    and "tx_skb_freelist np' = (if l0 = [] then tx_skb_freelist np else ucast (last l0))"
  using assms
  by (auto simp: tx_buf_gc_response_def Let_def add_id_to_freelist_def split: if_splits prod.splits)

lemma tx_buf_gc_scan_slots:
  assumes "xennet_tx_buf_gc_scan np cons prd = Inr np'"
  shows "(\<forall>i. i \<notin> unat ` set (tx_completed_ids np cons prd) \<longrightarrow> tx_slots np' i = tx_slots np i)
   \<and> tx_skb_freelist np' =
       (if tx_completed_ids np cons prd = [] then tx_skb_freelist np
        else ucast (last (tx_completed_ids np cons prd)))"
  using assms
proof (induction np cons prd rule: xennet_tx_buf_gc_scan.induct)
  case (1 np cons prd)
  show ?case
  proof (cases "cons = prd")
    case True
    with "1.prems" show ?thesis
      by (simp add: tx_buf_gc_scan_done tx_completed_ids_def)
  next
    case False
    with "1.prems" obtain np1 where r: "tx_buf_gc_response np cons = Inr np1"
      and s: "xennet_tx_buf_gc_scan np1 (cons + 1) prd = Inr np'"
      by (auto simp: tx_buf_gc_scan_more split: sum.splits)
    define l0 where "l0 = (let r = tx_ring_rsp np (tx_idx np cons) in
      if sint (txrsp_status r) \<noteq> XEN_NETIF_RSP_NULL then [txrsp_id r] else [])"
    define l1 where "l1 = tx_completed_ids np (cons + 1) prd"
    have c: "tx_completed_ids np1 = tx_completed_ids np"
      by (rule tx_completed_ids_cong) (simp_all add: tx_buf_gc_response_keeps [OF r])
    have l: "tx_completed_ids np cons prd = l0 @ l1"
      unfolding l0_def l1_def by (rule tx_completed_ids_step [OF False])
    have a0: "\<forall>i. i \<notin> unat ` set l0 \<longrightarrow> tx_slots np1 i = tx_slots np i"
      and b0: "tx_skb_freelist np1 = (if l0 = [] then tx_skb_freelist np else ucast (last l0))"
      using tx_buf_gc_response_slots [OF r l0_def] by blast+
    have a1: "\<forall>i. i \<notin> unat ` set l1 \<longrightarrow> tx_slots np' i = tx_slots np1 i"
      and b1: "tx_skb_freelist np' = (if l1 = [] then tx_skb_freelist np1 else ucast (last l1))"
      using "1.IH" [OF False r s] unfolding c l1_def by blast+
    from a0 a1 have "\<forall>i. i \<notin> unat ` set (l0 @ l1) \<longrightarrow> tx_slots np' i = tx_slots np i"
      by (simp add: image_Un)
    moreover from b0 b1 have "tx_skb_freelist np' =
        (if l0 @ l1 = [] then tx_skb_freelist np else ucast (last (l0 @ l1)))"
      by simp
    ultimately show ?thesis unfolding l by blast
  qed
qed


lemma np_example_gc_pass: "\<exists>np'. xennet_tx_buf_gc_pass np_example = Inr np'"
  by (simp add: xennet_tx_buf_gc_pass_def np_example_def tx_buf_gc_scan_more tx_buf_gc_scan_done
      tx_buf_gc_response_def tx_idx_def Let_def XEN_NETIF_RSP_NULL_def
      gnttab_query_foreign_access_def gnttab_end_foreign_access_ref_def
      gnttab_release_grant_reference_def add_id_to_freelist_def skb_entry_set_link_def
      dev_kfree_skb_def GRANT_INVALID_REF_def)

lemma np_example_completed_ids: "tx_completed_ids np_example 0 2 = [1]"
  by (simp add: tx_completed_ids_def np_example_def tx_idx_def XEN_NETIF_RSP_NULL_def upt_rec)

text \<open>
  C6. After every pass of \<open>xennet_tx_buf_gc\<close> that has consumed the responses up to the
  response producer it observed, the consumer is that producer and the response event
  marker is the consumer plus half the outstanding requests plus one, where the
  outstanding requests are the shared request producer minus the new consumer (32-bit
  arithmetic): the marker lies strictly ahead of the consumer.
\<close>

theorem xennet_tx_buf_gc_event_marker:
  assumes "xennet_tx_buf_gc_pass np = Inr np'"
  shows "tx_rsp_cons np' = tx_sring_rsp_prod np
       \<and> tx_sring_req_prod np' = tx_sring_req_prod np
       \<and> tx_sring_rsp_event np'
            = tx_rsp_cons np' + (tx_sring_req_prod np' - tx_rsp_cons np') div 2 + 1
       \<and> unat (tx_sring_rsp_event np' - tx_rsp_cons np')
            = unat (tx_sring_req_prod np' - tx_rsp_cons np') div 2 + 1"
proof -
  from assms obtain np1 where
    s: "xennet_tx_buf_gc_scan np (tx_rsp_cons np) (tx_sring_rsp_prod np) = Inr np1"
    and np': "np' = np1\<lparr>tx_rsp_cons := tx_sring_rsp_prod np,
                  tx_sring_rsp_event := tx_sring_rsp_prod np
                     + drop_bit 1 (tx_sring_req_prod np1 - tx_sring_rsp_prod np) + 1\<rparr>"
    by (auto simp: xennet_tx_buf_gc_pass_def Let_def split: sum.splits)
  have k: "tx_sring_req_prod np1 = tx_sring_req_prod np"
    using tx_buf_gc_scan_keeps [OF s] by simp
  define d where "d = tx_sring_req_prod np - tx_sring_rsp_prod np"
  have half: "drop_bit 1 d = d div 2"
    by (simp add: drop_bit_eq_div)
  have hu: "unat (d div 2) = unat d div 2"
    by (simp add: unat_div)
  have "unat d < 2 ^ 32"
    using unsigned_less [of d, where 'a = nat] by simp
  with hu have "unat (d div 2) + unat (1 :: u32) < 2 ^ LENGTH(32)" by simp
  then have "unat (d div 2 + 1) = unat (d div 2) + unat (1 :: u32)"
    by (rule unat_add_lem [THEN iffD1])
  with hu have u: "unat (d div 2 + 1) = unat d div 2 + 1" by simp
  show ?thesis
    using u by (simp add: np' k d_def [symmetric] drop_bit_eq_div)
qed

theorem xennet_tx_buf_gc_event_marker_witness:
  "\<exists>np'. xennet_tx_buf_gc_pass np_example = Inr np' \<and> tx_rsp_cons np' = 2
      \<and> tx_sring_rsp_event np' = 5"
proof -
  from np_example_gc_pass obtain np' where p: "xennet_tx_buf_gc_pass np_example = Inr np'" ..
  from xennet_tx_buf_gc_event_marker [OF p] have "tx_rsp_cons np' = 2 \<and> tx_sring_rsp_event np' = 5"
    by (simp add: np_example_def)
  with p show ?thesis by blast
qed

lemma xennet_tx_buf_gc_pass_slots:
  assumes "xennet_tx_buf_gc_pass np = Inr np'"
  shows "(\<forall>i. i \<notin> unat ` set (tx_completed_ids np (tx_rsp_cons np) (tx_sring_rsp_prod np))
            \<longrightarrow> tx_slots np' i = tx_slots np i)
       \<and> tx_skb_freelist np' =
           (if tx_completed_ids np (tx_rsp_cons np) (tx_sring_rsp_prod np) = []
            then tx_skb_freelist np
            else ucast (last (tx_completed_ids np (tx_rsp_cons np) (tx_sring_rsp_prod np))))"
proof -
  from assms obtain np1 where
    s: "xennet_tx_buf_gc_scan np (tx_rsp_cons np) (tx_sring_rsp_prod np) = Inr np1"
    and np': "np' = np1\<lparr>tx_rsp_cons := tx_sring_rsp_prod np,
                  tx_sring_rsp_event := tx_sring_rsp_prod np
                     + drop_bit 1 (tx_sring_req_prod np1 - tx_sring_rsp_prod np) + 1\<rparr>"
    by (auto simp: xennet_tx_buf_gc_pass_def Let_def split: sum.splits)
  from tx_buf_gc_scan_slots [OF s] show ?thesis by (simp add: np')
qed

subsection \<open>Transmission\<close>

lemma tx_chain_ext_refl: "tx_chain_ext np tx [] np tx"
  by (simp add: tx_chain_ext_def)

lemma tx_chain_ext_trans:
  assumes a: "tx_chain_ext np tx new1 np1 tx1" and b: "tx_chain_ext np1 tx1 new2 np2 tx2"
    and d: "distinct (tx # new1 @ new2)"
  shows "tx_chain_ext np tx (new1 @ new2) np2 tx2"
proof -
  have tx1: "tx1 = last (tx # new1)" and tx2: "tx2 = last (tx1 # new2)"
    using a b by (simp_all add: tx_chain_ext_def)
  have ua: "\<And>s. s \<notin> set (tx # new1) \<Longrightarrow> tx_ring_req np1 s = tx_ring_req np s"
    and ub: "\<And>s. s \<notin> set (tx1 # new2) \<Longrightarrow> tx_ring_req np2 s = tx_ring_req np1 s"
    using a b by (simp_all add: tx_chain_ext_def)
  have fa: "txreq_flags (tx_ring_req np1 tx)
       = (if new1 = [] then txreq_flags (tx_ring_req np tx)
          else txreq_flags (tx_ring_req np tx) OR XEN_NETTXF_more_data)"
    and fb: "txreq_flags (tx_ring_req np2 tx1)
       = (if new2 = [] then txreq_flags (tx_ring_req np1 tx1)
          else txreq_flags (tx_ring_req np1 tx1) OR XEN_NETTXF_more_data)"
    using a b by (simp_all add: tx_chain_ext_def)
  have ja: "\<And>j. j < length new1 \<Longrightarrow> txreq_flags (tx_ring_req np1 (new1 ! j))
          = (if Suc j < length new1 then XEN_NETTXF_more_data else 0)"
    and jb: "\<And>j. j < length new2 \<Longrightarrow> txreq_flags (tx_ring_req np2 (new2 ! j))
          = (if Suc j < length new2 then XEN_NETTXF_more_data else 0)"
    using a b by (simp_all add: tx_chain_ext_def)
  have tx1_in: "tx1 \<in> set (tx # new1)" unfolding tx1 by (rule last_in_set) simp
  have c1: "tx2 = last (tx # new1 @ new2)"
    using tx1 tx2 by (cases "new2 = []") simp_all
  have c2: "\<forall>s. s \<notin> set (tx # new1 @ new2) \<longrightarrow> tx_ring_req np2 s = tx_ring_req np s"
  proof (intro allI impI)
    fix s assume s: "s \<notin> set (tx # new1 @ new2)"
    with tx1_in have "s \<notin> set (tx1 # new2)" by auto
    then have "tx_ring_req np2 s = tx_ring_req np1 s" by (rule ub)
    also from s have "\<dots> = tx_ring_req np s" by (intro ua) simp
    finally show "tx_ring_req np2 s = tx_ring_req np s" .
  qed
  have c3: "txreq_flags (tx_ring_req np2 tx)
       = (if new1 @ new2 = [] then txreq_flags (tx_ring_req np tx)
          else txreq_flags (tx_ring_req np tx) OR XEN_NETTXF_more_data)"
  proof (cases "new1 = []")
    case True
    then show ?thesis using fa fb tx1 by simp
  next
    case False
    then have "tx1 = last new1" using tx1 by simp
    with False have "tx1 \<in> set new1" by simp
    with d have "tx \<notin> set (tx1 # new2)" by auto
    then have "tx_ring_req np2 tx = tx_ring_req np1 tx" by (rule ub)
    with fa False show ?thesis by simp
  qed
  have c4: "\<forall>j<length (new1 @ new2). txreq_flags (tx_ring_req np2 ((new1 @ new2) ! j))
          = (if Suc j < length (new1 @ new2) then XEN_NETTXF_more_data else 0)"
  proof (intro allI impI)
    fix j assume j: "j < length (new1 @ new2)"
    consider (early) "Suc j < length new1" | (last1) "Suc j = length new1" | (late) "length new1 \<le> j"
      by linarith
    then show "txreq_flags (tx_ring_req np2 ((new1 @ new2) ! j))
          = (if Suc j < length (new1 @ new2) then XEN_NETTXF_more_data else 0)"
    proof cases
      case early
      then have jl: "j < length new1" by simp
      have ne: "new1 \<noteq> []" using jl by auto
      have "distinct new1" using d by simp
      then have "new1 ! j \<noteq> new1 ! (length new1 - 1)"
        using early jl by (simp add: nth_eq_iff_index_eq)
      then have "new1 ! j \<noteq> tx1" using tx1 ne by (simp add: last_conv_nth)
      moreover have "new1 ! j \<in> set new1" using jl by simp
      then have "new1 ! j \<notin> set new2" using d by auto
      ultimately have "new1 ! j \<notin> set (tx1 # new2)" by simp
      then have "tx_ring_req np2 (new1 ! j) = tx_ring_req np1 (new1 ! j)" by (rule ub)
      with ja [OF jl] early jl show ?thesis by (simp add: nth_append)
    next
      case last1
      then have jl: "j < length new1" by simp
      have ne: "new1 \<noteq> []" using jl by auto
      have "length new1 - 1 = j" using last1 by simp
      then have e: "new1 ! j = tx1" using tx1 ne by (simp add: last_conv_nth)
      from ja [OF jl] last1 have z: "txreq_flags (tx_ring_req np1 tx1) = 0" by (simp add: e)
      show ?thesis using fb z last1 jl e by (auto simp: nth_append)
    next
      case late
      then have "j - length new1 < length new2" using j by simp
      from jb [OF this] late show ?thesis by (auto simp: nth_append)
    qed
  qed
  show ?thesis unfolding tx_chain_ext_def using c1 c2 c3 c4 by blast
qed

lemma tx_idx_inj:
  assumes n: "tx_nr_ents np = 2 ^ m" and m: "m < 32" and a: "a < 2 ^ m" and b: "b < 2 ^ m"
    and e: "tx_idx np (p + of_nat a) = tx_idx np (p + of_nat b)"
  shows "a = b"
proof -
  have msk: "tx_nr_ents np - 1 = mask m" by (simp add: n mask_eq_exp_minus_1)
  have i: "tx_idx np x = unat x mod 2 ^ m" for x :: u32
  proof -
    have "x AND mask m = take_bit m x" by (simp add: take_bit_eq_mask)
    moreover have "unat (take_bit m x) = take_bit m (unat x)" by (rule unsigned_take_bit_eq)
    ultimately show ?thesis by (simp add: tx_idx_def msk take_bit_eq_mod)
  qed
  have dv: "(2::nat) ^ m dvd 2 ^ 32" using m by (intro le_imp_power_dvd) simp
  then have dv': "(2::nat) ^ m dvd 4294967296" by simp
  have u: "unat (p + of_nat c :: u32) mod 2 ^ m = (unat p + c) mod 2 ^ m" for c
  proof -
    have "unat (p + of_nat c :: u32) = (unat p + c) mod 4294967296"
      by (simp add: unat_word_ariths unat_of_nat mod_add_right_eq)
    then show ?thesis using dv' by (simp add: mod_mod_cancel)
  qed
  from e have "(unat p + a) mod 2 ^ m = (unat p + b) mod 2 ^ m"
    by (simp add: i u)
  then have q: "(unat p mod 2 ^ m + a) mod 2 ^ m = (unat p mod 2 ^ m + b) mod 2 ^ m"
    by (simp add: mod_add_left_eq)
  define M :: nat where "M = 2 ^ m"
  define q where "q = unat p mod M"
  have qM: "q < M" by (simp add: q_def M_def)
  have ea: "(q + a) mod M = (if q + a < M then q + a else q + a - M)"
    using qM a by (simp add: M_def [symmetric] mod_if)
  have eb: "(q + b) mod M = (if q + b < M then q + b else q + b - M)"
    using qM b by (simp add: M_def [symmetric] mod_if)
  from q have "(q + a) mod M = (q + b) mod M" by (simp add: q_def M_def)
  with ea eb qM a b show ?thesis
    by (simp add: M_def [symmetric] split: if_splits)
qed

lemma tx_submit_keeps_refl: "tx_submit_keeps np np"
  by (simp add: tx_submit_keeps_def)

lemma tx_submit_keeps_trans:
  "tx_submit_keeps np np1 \<Longrightarrow> tx_submit_keeps np1 np2 \<Longrightarrow> tx_submit_keeps np np2"
  by (simp add: tx_submit_keeps_def)

lemma tx_slots_from_keeps: "tx_submit_keeps np np' \<Longrightarrow> tx_slots_from np' = tx_slots_from np"
  by (simp add: tx_submit_keeps_def tx_slots_from_def tx_idx_def fun_eq_iff)

lemma tx_slots_from_Suc:
  "tx_slots_from np p (Suc n) = tx_idx np p # tx_slots_from np (p + 1) n"
proof -
  have "[0..<Suc n] = 0 # map Suc [0..<n]"
    by (simp add: upt_conv_Cons map_Suc_upt del: upt_Suc)
  then show ?thesis
    by (simp add: tx_slots_from_def o_def add.assoc del: upt_Suc)
qed

lemma tx_slots_from_add:
  "tx_slots_from np p (a + b) = tx_slots_from np p a @ tx_slots_from np (p + of_nat a) b"
proof (induction a arbitrary: p)
  case 0
  show ?case by (simp add: tx_slots_from_def)
next
  case (Suc a)
  have "tx_slots_from np p (Suc (a + b)) = tx_idx np p # tx_slots_from np (p + 1) (a + b)"
    by (rule tx_slots_from_Suc)
  also have "\<dots> = tx_idx np p # (tx_slots_from np (p + 1) a @ tx_slots_from np (p + 1 + of_nat a) b)"
    by (simp add: Suc.IH)
  also have "\<dots> = tx_slots_from np p (Suc a) @ tx_slots_from np (p + of_nat (Suc a)) b"
    by (simp add: tx_slots_from_Suc ac_simps)
  finally show ?case by simp
qed

lemma make_frags_request_effect:
  assumes "make_frags_request np skb prd mfn off sz = Inr (np', tx')"
  shows "tx' = tx_idx np prd" and "\<forall>s. s \<noteq> tx' \<longrightarrow> tx_ring_req np' s = tx_ring_req np s"
    and "txreq_flags (tx_ring_req np' tx') = 0" and "tx_submit_keeps np np'"
  using assms
  by (auto simp: make_frags_request_def Let_def tx_submit_keeps_def tx_idx_def
      split: prod.splits if_splits)

lemma make_frags_step_ext:
  assumes r: "make_frags_request (tx_set_more_data npx tx) skb prd mfn off sz = Inr (np2, tx1)"
    and o: "\<forall>s. s \<noteq> tx \<longrightarrow> tx_ring_req npx s = tx_ring_req np s"
    and f: "txreq_flags (tx_ring_req npx tx) = txreq_flags (tx_ring_req np tx)"
    and k: "tx_submit_keeps np npx"
    and d: "tx1 \<noteq> tx"
  shows "tx_chain_ext np tx [tx1] np2 tx1" and "tx_submit_keeps np np2" and "tx1 = tx_idx np prd"
proof -
  let ?n1 = "tx_set_more_data npx tx"
  have k1: "tx_submit_keeps npx ?n1" by (simp add: tx_submit_keeps_def tx_set_more_data_def)
  note e = make_frags_request_effect [OF r]
  show k2: "tx_submit_keeps np np2"
    using k k1 e(4) by (blast intro: tx_submit_keeps_trans)
  have "tx_idx ?n1 = tx_idx np"
    using k k1 by (simp add: tx_submit_keeps_def tx_idx_def fun_eq_iff)
  with e(1) show "tx1 = tx_idx np prd" by simp
  have a: "\<forall>s. s \<notin> set [tx, tx1] \<longrightarrow> tx_ring_req np2 s = tx_ring_req np s"
    using e(2) o by (simp add: tx_set_more_data_def)
  have b: "txreq_flags (tx_ring_req np2 tx) = txreq_flags (tx_ring_req np tx) OR XEN_NETTXF_more_data"
    using e(2) d f by (simp add: tx_set_more_data_def)
  show "tx_chain_ext np tx [tx1] np2 tx1"
    unfolding tx_chain_ext_def using a b e(3) by simp
qed

lemma make_frags_frags_ext:
  assumes "make_frags_frags np skb tx prd fl = Inr (np', tx', prd')"
    and "distinct (tx # tx_slots_from np prd (length fl))"
  shows "tx_chain_ext np tx (tx_slots_from np prd (length fl)) np' tx'
       \<and> prd' = prd + of_nat (length fl) \<and> tx_submit_keeps np np'"
  using assms
proof (induction fl arbitrary: np tx prd)
  case Nil
  then show ?case
    by (simp add: tx_slots_from_def tx_chain_ext_refl tx_submit_keeps_refl)
next
  case (Cons frag rest)
  from Cons.prems(1) obtain np2 tx1 where
    r: "make_frags_request (tx_set_more_data np tx) skb prd (page_to_mfn (frag_page frag))
             (ucast (page_offset frag)) (ucast (frag_size frag)) = Inr (np2, tx1)"
    and l: "make_frags_frags np2 skb tx1 (prd + 1) rest = Inr (np', tx', prd')"
    by (auto split: sum.splits prod.splits)
  have sl: "tx_slots_from np prd (length (frag # rest))
      = tx_idx np prd # tx_slots_from np (prd + 1) (length rest)"
    by (simp add: tx_slots_from_Suc)
  have t1: "tx1 = tx_idx np prd"
    using make_frags_request_effect(1) [OF r] by (simp add: tx_idx_def tx_set_more_data_def)
  with Cons.prems(2) sl have ne: "tx1 \<noteq> tx" by auto
  have s: "tx_chain_ext np tx [tx1] np2 tx1" and k: "tx_submit_keeps np np2"
    using make_frags_step_ext [OF r _ _ tx_submit_keeps_refl ne] by simp_all
  have sf: "tx_slots_from np2 = tx_slots_from np" by (rule tx_slots_from_keeps [OF k])
  have "distinct (tx1 # tx_slots_from np2 (prd + 1) (length rest))"
    using Cons.prems(2) sl t1 sf by simp
  from Cons.IH [OF l this] have
    i: "tx_chain_ext np2 tx1 (tx_slots_from np (prd + 1) (length rest)) np' tx'"
    and p: "prd' = prd + 1 + of_nat (length rest)" and k': "tx_submit_keeps np2 np'"
    by (simp_all add: sf)
  have "tx_chain_ext np tx ([tx1] @ tx_slots_from np (prd + 1) (length rest)) np' tx'"
    using s i Cons.prems(2) sl t1 by (intro tx_chain_ext_trans) simp_all
  then show ?case
    using p k k' sl t1 by (auto intro: tx_submit_keeps_trans simp: add.assoc)
qed

lemma make_frags_head_ext:
  assumes "make_frags_head np skb tx prd data offset hlen = Inr (np', tx', prd')"
    and "offset < PAGE_SIZE"
    and "distinct (tx # tx_slots_from np prd ((offset + hlen - 1) div PAGE_SIZE))"
  shows "tx_chain_ext np tx (tx_slots_from np prd ((offset + hlen - 1) div PAGE_SIZE)) np' tx'
       \<and> prd' = prd + of_nat ((offset + hlen - 1) div PAGE_SIZE) \<and> tx_submit_keeps np np'"
  using assms
proof (induction np skb tx prd data offset hlen rule: make_frags_head.induct)
  case (1 np skb tx prd data offset hlen)
  show ?case
  proof (cases "hlen > PAGE_SIZE - offset")
    case False
    with "1.prems"(2) have "(offset + hlen - 1) div PAGE_SIZE = 0" by (simp add: PAGE_SIZE_def)
    moreover from False "1.prems"(1) have "np' = np \<and> tx' = tx \<and> prd' = prd"
      by (simp add: make_frags_head.simps [of np skb tx prd data offset hlen])
    ultimately show ?thesis
      by (simp add: tx_slots_from_def tx_chain_ext_refl tx_submit_keeps_refl)
  next
    case True
    define sz :: u16 where "sz = of_nat (PAGE_SIZE - offset)"
    define npx where "npx = np\<lparr>tx_ring_req := (tx_ring_req np)(tx := (tx_ring_req np tx)\<lparr>txreq_size := sz\<rparr>)\<rparr>"
    define np1 where "np1 = tx_set_more_data
       (np\<lparr>tx_ring_req := (tx_ring_req np)(tx := (tx_ring_req np tx)\<lparr>txreq_size := sz\<rparr>)\<rparr>) tx"
    define hlen' where "hlen' = hlen - unat sz"
    define data' where "data' = data + ucast sz"
    have c: "offset < PAGE_SIZE \<and> PAGE_SIZE - offset < hlen" using True "1.prems"(2) by simp
    have usz: "unat sz = PAGE_SIZE - offset"
      by (simp add: sz_def unat_of_nat PAGE_SIZE_def)
    from "1.prems"(1) c obtain np2 tx1 where
      r: "make_frags_request (tx_set_more_data npx tx) skb prd (virt_to_mfn data') 0 (of_nat hlen')
            = Inr (np2, tx1)"
      and l: "make_frags_head np2 skb tx1 (prd + 1) data' 0 hlen' = Inr (np', tx', prd')"
      by (auto simp: make_frags_head.simps [of np skb tx prd data offset hlen] Let_def
          sz_def npx_def hlen'_def data'_def split: sum.splits prod.splits)
    have n: "(offset + hlen - 1) div PAGE_SIZE = Suc ((0 + hlen' - 1) div PAGE_SIZE)"
    proof -
      have "hlen' = hlen - (PAGE_SIZE - offset)" by (simp add: hlen'_def usz)
      with c have "offset + hlen - 1 = (hlen' - 1) + PAGE_SIZE" by arith
      then show ?thesis by (simp add: PAGE_SIZE_def)
    qed
    let ?n1 = "(0 + hlen' - 1) div PAGE_SIZE"
    have sl: "tx_slots_from np prd ((offset + hlen - 1) div PAGE_SIZE)
      = tx_idx np prd # tx_slots_from np (prd + 1) ?n1"
      unfolding n by (rule tx_slots_from_Suc)
    have kx: "tx_submit_keeps np npx" by (simp add: tx_submit_keeps_def npx_def)
    have t1: "tx1 = tx_idx np prd"
      using make_frags_request_effect(1) [OF r]
      by (simp add: tx_idx_def tx_set_more_data_def npx_def)
    with "1.prems"(3) sl have ne: "tx1 \<noteq> tx" by auto
    have s: "tx_chain_ext np tx [tx1] np2 tx1" and k: "tx_submit_keeps np np2"
      using make_frags_step_ext [OF r _ _ kx ne] by (simp_all add: npx_def)
    have sf: "tx_slots_from np2 = tx_slots_from np" by (rule tx_slots_from_keeps [OF k])
    have d2: "distinct (tx1 # tx_slots_from np2 (prd + 1) ?n1)"
      using "1.prems"(3) sl t1 sf by simp
    have z: "(0::nat) < PAGE_SIZE" by (simp add: PAGE_SIZE_def)
    have r1: "make_frags_request np1 skb prd (virt_to_mfn data') 0 (of_nat hlen') = Inr (np2, tx1)"
      using r by (simp add: np1_def npx_def)
    from "1.IH" [OF c sz_def np1_def hlen'_def data'_def r1 refl l z d2]
    have i: "tx_chain_ext np2 tx1 (tx_slots_from np (prd + 1) ?n1) np' tx'"
      and p: "prd' = prd + 1 + of_nat ?n1" and k': "tx_submit_keeps np2 np'"
      by (simp_all add: sf)
    have "tx_chain_ext np tx ([tx1] @ tx_slots_from np (prd + 1) ?n1) np' tx'"
      using s i "1.prems"(3) sl t1 by (intro tx_chain_ext_trans) simp_all
    then show ?thesis
      using p k k' sl t1 n by (auto intro: tx_submit_keeps_trans simp: add.assoc)
  qed
qed

lemma tx_gc_keeps_refl: "tx_gc_keeps np np"
  by (simp add: tx_gc_keeps_def)

lemma tx_gc_keeps_trans: "tx_gc_keeps np np1 \<Longrightarrow> tx_gc_keeps np1 np2 \<Longrightarrow> tx_gc_keeps np np2"
  by (simp add: tx_gc_keeps_def)

lemma tx_buf_gc_response_gc_keeps:
  "tx_buf_gc_response np cons = Inr np' \<Longrightarrow> tx_gc_keeps np np'"
  by (auto simp: tx_buf_gc_response_def Let_def tx_gc_keeps_def split: if_splits prod.splits)

lemma tx_buf_gc_scan_gc_keeps:
  "xennet_tx_buf_gc_scan np cons prd = Inr np' \<Longrightarrow> tx_gc_keeps np np'"
proof (induction np cons prd rule: xennet_tx_buf_gc_scan.induct)
  case (1 np cons prd)
  show ?case
  proof (cases "cons = prd")
    case True
    with "1.prems" show ?thesis
      by (simp add: xennet_tx_buf_gc_scan.simps [of np prd prd] tx_gc_keeps_refl)
  next
    case False
    with "1.prems" obtain np1 where r: "tx_buf_gc_response np cons = Inr np1"
      and s: "xennet_tx_buf_gc_scan np1 (cons + 1) prd = Inr np'"
      by (auto simp: xennet_tx_buf_gc_scan.simps [of np cons prd] split: sum.splits)
    from "1.IH" [OF False r s] tx_buf_gc_response_gc_keeps [OF r] show ?thesis
      by (rule tx_gc_keeps_trans [rotated])
  qed
qed

lemma tx_buf_gc_pass_gc_keeps:
  assumes "xennet_tx_buf_gc_pass np = Inr np'"
  shows "tx_gc_keeps np np'"
proof -
  from assms obtain np1 where
    s: "xennet_tx_buf_gc_scan np (tx_rsp_cons np) (tx_sring_rsp_prod np) = Inr np1"
    and np': "np' = np1\<lparr>tx_rsp_cons := tx_sring_rsp_prod np,
                  tx_sring_rsp_event := tx_sring_rsp_prod np
                     + drop_bit 1 (tx_sring_req_prod np1 - tx_sring_rsp_prod np) + 1\<rparr>"
    by (auto simp: xennet_tx_buf_gc_pass_def Let_def split: sum.splits)
  from tx_buf_gc_scan_gc_keeps [OF s] show ?thesis
    by (simp add: np' tx_gc_keeps_def)
qed

lemma tx_buf_gc_loop_gc_keeps:
  "xennet_tx_buf_gc_loop np later = Inr np' \<Longrightarrow> tx_gc_keeps np np'"
proof (induction later arbitrary: np)
  case Nil
  then show ?case
    by (auto simp: xennet_tx_buf_gc_loop.simps [of np "[]"] tx_buf_gc_pass_gc_keeps
        split: sum.splits)
next
  case (Cons p ps)
  from Cons.prems obtain np2 where p2: "xennet_tx_buf_gc_pass np = Inr np2"
    and c: "(if tx_rsp_cons np2 \<noteq> p
               then xennet_tx_buf_gc_loop (np2\<lparr>tx_sring_rsp_prod := p\<rparr>) ps
               else Inr np2) = Inr np'"
    by (auto simp: xennet_tx_buf_gc_loop.simps [of np "p # ps"] split: sum.splits)
  note k = tx_buf_gc_pass_gc_keeps [OF p2]
  show ?case
  proof (cases "tx_rsp_cons np2 \<noteq> p")
    case True
    with c have "xennet_tx_buf_gc_loop (np2\<lparr>tx_sring_rsp_prod := p\<rparr>) ps = Inr np'" by simp
    from Cons.IH [OF this] have "tx_gc_keeps (np2\<lparr>tx_sring_rsp_prod := p\<rparr>) np'" .
    moreover have "tx_gc_keeps np2 (np2\<lparr>tx_sring_rsp_prod := p\<rparr>)" by (simp add: tx_gc_keeps_def)
    ultimately show ?thesis using k by (blast intro: tx_gc_keeps_trans)
  next
    case False
    with c k show ?thesis by simp
  qed
qed

lemma xennet_tx_buf_gc_gc_keeps:
  assumes "xennet_tx_buf_gc np later = Inr np'"
  shows "tx_gc_keeps np np'"
proof -
  from assms obtain np1 where l: "xennet_tx_buf_gc_loop np later = Inr np1"
    and np': "np' = xennet_maybe_wake_tx np1"
    by (auto simp: xennet_tx_buf_gc_def split: if_splits sum.splits)
  have "tx_gc_keeps np1 np'" by (simp add: np' xennet_maybe_wake_tx_def tx_gc_keeps_def)
  with tx_buf_gc_loop_gc_keeps [OF l] show ?thesis by (rule tx_gc_keeps_trans)
qed

lemma xennet_make_frags_ext:
  assumes run: "xennet_make_frags np skb tx = Inr np'"
    and d: "distinct (tx # tx_slots_from np (tx_req_prod_pvt np) (tx_more_requests skb))"
  shows "tx_chain_ext np tx (tx_slots_from np (tx_req_prod_pvt np) (tx_more_requests skb)) np'
           (last (tx # tx_slots_from np (tx_req_prod_pvt np) (tx_more_requests skb)))"
    and "tx_req_prod_pvt np' = tx_req_prod_pvt np + of_nat (tx_more_requests skb)"
    and "tx_submit_keeps np (np'\<lparr>tx_req_prod_pvt := tx_req_prod_pvt np\<rparr>)"
proof -
  let ?off = "offset_in_page (skb_data skb)" and ?hl = "unat (skb_headlen skb)"
  let ?nh = "(?off + ?hl - 1) div PAGE_SIZE" and ?p = "tx_req_prod_pvt np"
  from run obtain np1 tx1 prd1 np2 tx2 prd2 where
    h: "make_frags_head np skb tx ?p (skb_data skb) ?off ?hl = Inr (np1, tx1, prd1)"
    and f: "make_frags_frags np1 skb tx1 prd1 (map (frags skb) [0..<nr_frags skb]) = Inr (np2, tx2, prd2)"
    and np': "np' = np2\<lparr>tx_req_prod_pvt := prd2\<rparr>"
    by (auto simp: xennet_make_frags_def split: sum.splits prod.splits)
  have off: "?off < PAGE_SIZE" by (simp add: offset_in_page_def PAGE_SIZE_def)
  have sl: "tx_slots_from np ?p (tx_more_requests skb)
      = tx_slots_from np ?p ?nh @ tx_slots_from np (?p + of_nat ?nh) (nr_frags skb)"
    unfolding tx_more_requests_def by (rule tx_slots_from_add)
  have d1: "distinct (tx # tx_slots_from np ?p ?nh)" using d sl by simp
  from make_frags_head_ext [OF h off d1] have
    e1: "tx_chain_ext np tx (tx_slots_from np ?p ?nh) np1 tx1"
    and p1: "prd1 = ?p + of_nat ?nh" and k1: "tx_submit_keeps np np1" by simp_all
  have sf: "tx_slots_from np1 = tx_slots_from np" by (rule tx_slots_from_keeps [OF k1])
  have t1: "tx1 = last (tx # tx_slots_from np ?p ?nh)" using e1 by (simp add: tx_chain_ext_def)
  have d2: "distinct (tx1 # tx_slots_from np1 prd1 (length (map (frags skb) [0..<nr_frags skb])))"
  proof (cases "tx_slots_from np ?p ?nh = []")
    case True
    with d sl t1 p1 sf show ?thesis by simp
  next
    case False
    with t1 have "tx1 \<in> set (tx_slots_from np ?p ?nh)" by simp
    with d sl p1 sf show ?thesis by auto
  qed
  from make_frags_frags_ext [OF f d2] have
    e2: "tx_chain_ext np1 tx1 (tx_slots_from np (?p + of_nat ?nh) (nr_frags skb)) np2 tx2"
    and p2: "prd2 = prd1 + of_nat (nr_frags skb)" and k2: "tx_submit_keeps np1 np2"
    by (simp_all add: sf p1)
  have e: "tx_chain_ext np tx (tx_slots_from np ?p (tx_more_requests skb)) np2 tx2"
    unfolding sl using e1 e2 d sl by (intro tx_chain_ext_trans) simp_all
  then have t2: "tx2 = last (tx # tx_slots_from np ?p (tx_more_requests skb))"
    by (simp add: tx_chain_ext_def)
  from e show "tx_chain_ext np tx (tx_slots_from np ?p (tx_more_requests skb)) np'
           (last (tx # tx_slots_from np ?p (tx_more_requests skb)))"
    unfolding t2 [symmetric] by (simp add: tx_chain_ext_def np')
  show "tx_req_prod_pvt np' = ?p + of_nat (tx_more_requests skb)"
    by (simp add: np' p2 p1 tx_more_requests_def)
  from tx_submit_keeps_trans [OF k1 k2]
  show "tx_submit_keeps np (np'\<lparr>tx_req_prod_pvt := ?p\<rparr>)"
    by (simp add: np' tx_submit_keeps_def)
qed

lemma tx_slots_distinct:
  assumes n: "tx_nr_ents np = 2 ^ m" and m: "m < 32" and b: "0 < b" and s: "b + n \<le> 2 ^ m"
  shows "distinct (tx_idx np i # tx_slots_from np (i + of_nat b) n)"
proof -
  let ?f = "\<lambda>a. tx_idx np (i + of_nat a)"
  let ?l = "0 # map (\<lambda>j. b + j) [0..<n]"
  have e: "tx_idx np i # tx_slots_from np (i + of_nat b) n = map ?f ?l"
    by (simp add: tx_slots_from_def o_def add.assoc)
  have "distinct ?l" using b by (auto simp: distinct_map inj_on_def)
  moreover have "inj_on ?f (set ?l)"
  proof (rule inj_onI)
    fix x y assume "x \<in> set ?l" and "y \<in> set ?l" and xy: "?f x = ?f y"
    then have "x < 2 ^ m" and "y < 2 ^ m" using s b by auto
    then show "x = y" using tx_idx_inj [OF n m _ _ xy] by simp
  qed
  ultimately show ?thesis unfolding e distinct_map by blast
qed

lemma xennet_start_xmit_requests_effect:
  assumes run: "xennet_start_xmit_requests np skb = Inr np'"
    and n: "tx_nr_ents np = 2 ^ m" and m: "m < 32"
    and s: "tx_more_requests skb + 2 \<le> 2 ^ m"
  shows "tx_req_prod_pvt np' = tx_req_prod_pvt np
            + of_nat (1 + tx_gso_entries skb + tx_more_requests skb)"
    and "txreq_flags (tx_ring_req np' (tx_idx np (tx_req_prod_pvt np)))
          = tx_csum_flags (ip_summed skb)
              OR (if gso_size skb \<noteq> 0 then XEN_NETTXF_extra_info else 0)
              OR (if tx_more_requests skb = 0 then 0 else XEN_NETTXF_more_data)"
    and "\<forall>j<tx_more_requests skb.
           txreq_flags (tx_ring_req np'
               (tx_idx np (tx_req_prod_pvt np + of_nat (1 + tx_gso_entries skb + j))))
             = (if Suc j < tx_more_requests skb then XEN_NETTXF_more_data else 0)"
    and "tx_submit_keeps np (np'\<lparr>tx_req_prod_pvt := tx_req_prod_pvt np,
                                 tx_ring_extra := tx_ring_extra np\<rparr>)"
proof -
  let ?i = "tx_req_prod_pvt np" and ?tx = "tx_idx np (tx_req_prod_pvt np)"
  let ?g = "tx_gso_entries skb" and ?n = "tx_more_requests skb"
  let ?f0 = "tx_csum_flags (ip_summed skb) OR (if gso_size skb \<noteq> 0 then XEN_NETTXF_extra_info else 0)"
  from run obtain np2 np3 where
    mf: "xennet_make_frags np2 skb ?tx = Inr np3"
    and np': "np' = np3\<lparr>tx_ring_req := (tx_ring_req np3)(?tx := (tx_ring_req np3 ?tx)
                              \<lparr>txreq_size := ucast (len skb)\<rparr>)\<rparr>"
    and k2: "tx_submit_keeps np (np2\<lparr>tx_req_prod_pvt := ?i, tx_ring_extra := tx_ring_extra np\<rparr>)"
    and p2: "tx_req_prod_pvt np2 = ?i + of_nat (1 + ?g)"
    and f2: "txreq_flags (tx_ring_req np2 ?tx) = ?f0"
    by (auto simp: xennet_start_xmit_requests_def Let_def tx_submit_keeps_def tx_gso_entries_def
        split: sum.splits prod.splits if_splits)
  have ne: "tx_nr_ents np2 = tx_nr_ents np" using k2 by (simp add: tx_submit_keeps_def)
  then have ti: "tx_idx np2 = tx_idx np" by (simp add: tx_idx_def fun_eq_iff)
  then have sf: "tx_slots_from np2 = tx_slots_from np" by (simp add: tx_slots_from_def fun_eq_iff)
  have g1: "?g \<le> 1" by (simp add: tx_gso_entries_def)
  have d: "distinct (?tx # tx_slots_from np2 (tx_req_prod_pvt np2) ?n)"
    unfolding p2 sf using g1 s by (intro tx_slots_distinct [OF n m]) simp_all
  note e = xennet_make_frags_ext [OF mf d]
  let ?new = "tx_slots_from np2 (tx_req_prod_pvt np2) ?n"
  have ln: "length ?new = ?n" by (simp add: tx_slots_from_def)
  have nth: "?new ! j = tx_idx np (?i + of_nat (1 + ?g + j))" if "j < ?n" for j
    using that by (simp add: tx_slots_from_def p2 ti add.assoc)
  show "tx_req_prod_pvt np' = ?i + of_nat (1 + ?g + ?n)"
    using e(2) by (simp add: np' p2 add.assoc)
  have c3: "txreq_flags (tx_ring_req np3 ?tx)
       = (if ?new = [] then txreq_flags (tx_ring_req np2 ?tx)
          else txreq_flags (tx_ring_req np2 ?tx) OR XEN_NETTXF_more_data)"
    and c4: "\<forall>j<length ?new. txreq_flags (tx_ring_req np3 (?new ! j))
          = (if Suc j < length ?new then XEN_NETTXF_more_data else 0)"
    using e(1) unfolding tx_chain_ext_def by blast+
  have em: "?new = [] \<longleftrightarrow> ?n = 0" using ln by (metis length_0_conv)
  show "txreq_flags (tx_ring_req np' ?tx)
          = tx_csum_flags (ip_summed skb)
              OR (if gso_size skb \<noteq> 0 then XEN_NETTXF_extra_info else 0)
              OR (if ?n = 0 then 0 else XEN_NETTXF_more_data)"
    using c3 by (simp add: np' f2 em or.assoc)
  show "\<forall>j<?n. txreq_flags (tx_ring_req np' (tx_idx np (?i + of_nat (1 + ?g + j))))
             = (if Suc j < ?n then XEN_NETTXF_more_data else 0)"
  proof (intro allI impI)
    fix j assume j: "j < ?n"
    from c4 j ln have "txreq_flags (tx_ring_req np3 (?new ! j))
          = (if Suc j < ?n then XEN_NETTXF_more_data else 0)" by simp
    moreover have "?new ! j \<in> set ?new" using j ln by simp
    with d have "?new ! j \<noteq> ?tx" by auto
    ultimately show "txreq_flags (tx_ring_req np' (tx_idx np (?i + of_nat (1 + ?g + j))))
             = (if Suc j < ?n then XEN_NETTXF_more_data else 0)"
      unfolding nth [OF j] by (simp add: np')
  qed
  from e(3) k2 show "tx_submit_keeps np (np'\<lparr>tx_req_prod_pvt := ?i, tx_ring_extra := tx_ring_extra np\<rparr>)"
    by (simp add: np' tx_submit_keeps_def)
qed

lemma skb_example_frags: "xmit_frags skb_example = 3"
  by (simp add: xmit_frags_def skb_example_def offset_in_page_def skb_headlen_def
      DIV_ROUND_UP_def PAGE_SIZE_def)

lemma xennet_start_xmit_accepts:
  assumes "\<not> tx_packet_dropped np skb"
  shows "xennet_start_xmit np skb later =
     (case xennet_start_xmit_requests np skb of
              Inl b \<Rightarrow> Inl b
            | Inr np1 \<Rightarrow>
                (let (notify, np2) = tx_push_requests_and_check_notify np1;
                     np3 = (if notify then np2\<lparr>irq_notifies := irq_notifies np2 + 1\<rparr> else np2);
                     np4 = np3\<lparr>stats_tx_bytes := stats_tx_bytes np3 + ucast (len skb),
                               stats_tx_packets := stats_tx_packets np3 + 1\<rparr>
                 in (case xennet_tx_buf_gc np4 later of
                       Inl b \<Rightarrow> Inl b
                     | Inr np5 \<Rightarrow>
                         Inr (NETDEV_TX_OK,
                              if \<not> netfront_tx_slot_available np5
                              then np5\<lparr>netdev := (netdev np5)\<lparr>queue_stopped := True\<rparr>\<rparr>
                              else np5))))"
  using assms by (auto simp: xennet_start_xmit_def tx_packet_dropped_def Let_def)


lemma xennet_start_xmit_effect:
  assumes run: "xennet_start_xmit np skb later = Inr (rv, np')"
    and acc: "\<not> tx_packet_dropped np skb"
  obtains np1 where "xennet_start_xmit_requests np skb = Inr np1"
    and "tx_ring_req np' = tx_ring_req np1" and "tx_req_prod_pvt np' = tx_req_prod_pvt np1"
    and "tx_sring_req_prod np' = tx_req_prod_pvt np1"
    and "stats_tx_packets np' = stats_tx_packets np1 + 1"
    and "tx_dropped (netdev np') = tx_dropped (netdev np1)"
    and "rv = NETDEV_TX_OK"
proof -
  from run obtain np1 np4 np5 where
    r: "xennet_start_xmit_requests np skb = Inr np1"
    and g: "xennet_tx_buf_gc np4 later = Inr np5"
    and np4: "tx_ring_req np4 = tx_ring_req np1" "tx_req_prod_pvt np4 = tx_req_prod_pvt np1"
      "tx_sring_req_prod np4 = tx_req_prod_pvt np1" "stats_tx_packets np4 = stats_tx_packets np1 + 1"
      "netdev np4 = netdev np1"
    and np': "np' = (if \<not> netfront_tx_slot_available np5
                              then np5\<lparr>netdev := (netdev np5)\<lparr>queue_stopped := True\<rparr>\<rparr>
                              else np5)"
    and rv: "rv = NETDEV_TX_OK"
    unfolding xennet_start_xmit_accepts [OF acc]
    by (auto simp: Let_def tx_push_requests_and_check_notify_def split: sum.splits prod.splits if_splits)
  from xennet_tx_buf_gc_gc_keeps [OF g] np4 np' rv r show ?thesis
    by (intro that [of np1]) (auto simp: tx_gc_keeps_def)
qed

lemma np_example_xmit:
  "\<exists>np'. xennet_start_xmit np_example skb_example [] = Inr (0, np')"
  by (simp add: xennet_start_xmit_def skb_example_frags MAX_SKB_FRAGS_def PAGE_SIZE_def
      xennet_can_sg_def NETIF_F_SG_def
      xennet_start_xmit_requests_def xennet_make_frags_def make_frags_head.simps
      make_frags_request_def tx_set_more_data_def get_id_from_freelist_def
      gnttab_claim_grant_reference_def ref_negative_def
      gnttab_grant_foreign_access_ref_def skb_get_def virt_to_mfn_def page_to_mfn_def
      offset_in_page_def skb_headlen_def tx_csum_flags_def
      tx_push_requests_and_check_notify_def
      xennet_tx_buf_gc_def xennet_tx_buf_gc_loop.simps xennet_tx_buf_gc_pass_def
      tx_buf_gc_scan_more tx_buf_gc_scan_done
      tx_buf_gc_response_def tx_idx_def Let_def XEN_NETIF_RSP_NULL_def
      gnttab_query_foreign_access_def gnttab_end_foreign_access_ref_def
      gnttab_release_grant_reference_def add_id_to_freelist_def skb_entry_set_link_def
      dev_kfree_skb_def GRANT_INVALID_REF_def xennet_maybe_wake_tx_def
      netfront_tx_slot_available_def NETDEV_TX_OK_def
      np_example_def skb_example_def upt_rec)

lemma tx_first_flags_more_data:
  "(tx_csum_flags s OR (if g then XEN_NETTXF_extra_info else 0)
      OR (if z then 0 else XEN_NETTXF_more_data)) AND XEN_NETTXF_more_data \<noteq> 0 \<longleftrightarrow> \<not> z"
  by (cases s) (simp_all add: tx_csum_flags_def XEN_NETTXF_extra_info_def
      XEN_NETTXF_more_data_def XEN_NETTXF_csum_blank_def XEN_NETTXF_data_validated_def)

lemma tx_first_flags_csum:
  "(tx_csum_flags s OR (if g then XEN_NETTXF_extra_info else 0)
      OR (if z then 0 else XEN_NETTXF_more_data)) AND XEN_NETTXF_csum_blank \<noteq> 0
     \<longleftrightarrow> s = CHECKSUM_PARTIAL"
  "(tx_csum_flags s OR (if g then XEN_NETTXF_extra_info else 0)
      OR (if z then 0 else XEN_NETTXF_more_data)) AND XEN_NETTXF_data_validated \<noteq> 0
     \<longleftrightarrow> s = CHECKSUM_PARTIAL \<or> s = CHECKSUM_UNNECESSARY"
  by (cases s; simp add: tx_csum_flags_def XEN_NETTXF_extra_info_def
      XEN_NETTXF_more_data_def XEN_NETTXF_csum_blank_def XEN_NETTXF_data_validated_def)+

lemma tx_more_flags:
  "(if c then XEN_NETTXF_more_data else 0) AND XEN_NETTXF_more_data \<noteq> 0 \<longleftrightarrow> c"
  "(if c then XEN_NETTXF_more_data else 0) AND (XEN_NETTXF_csum_blank OR XEN_NETTXF_data_validated) = 0"
  by (simp_all add: XEN_NETTXF_more_data_def XEN_NETTXF_csum_blank_def XEN_NETTXF_data_validated_def)

lemma xmit_frags_more:
  assumes "offset_in_page (skb_data skb) + unat (skb_headlen skb) < 2 ^ 32"
  shows "xmit_frags skb =
     (if offset_in_page (skb_data skb) + unat (skb_headlen skb) = 0 then tx_more_requests skb
      else Suc (tx_more_requests skb))"
proof -
  let ?s = "offset_in_page (skb_data skb) + unat (skb_headlen skb)"
  have "(?s + PAGE_SIZE - 1) div PAGE_SIZE = (if ?s = 0 then 0 else Suc ((?s - 1) div PAGE_SIZE))"
  proof (cases "?s = 0")
    case True
    then show ?thesis by (simp add: PAGE_SIZE_def)
  next
    case False
    then have "?s + PAGE_SIZE - 1 = (?s - 1) + PAGE_SIZE" by arith
    then have "(?s + PAGE_SIZE - 1) div PAGE_SIZE = ((?s - 1) + PAGE_SIZE) div PAGE_SIZE"
      by (simp only:)
    also have "\<dots> = Suc ((?s - 1) div PAGE_SIZE)" by (simp add: PAGE_SIZE_def)
    finally show ?thesis using False by simp
  qed
  with assms show ?thesis
    by (simp add: xmit_frags_def tx_more_requests_def DIV_ROUND_UP_def)
qed

lemma tx_accepted_ring:
  assumes acc: "\<not> tx_packet_dropped np skb"
    and h: "offset_in_page (skb_data skb) + unat (skb_headlen skb) < 2 ^ 32"
    and m: "5 \<le> m"
  shows "tx_more_requests skb + 2 \<le> 2 ^ m"
proof -
  from acc have "xmit_frags skb \<le> 18"
    by (simp add: tx_packet_dropped_def MAX_SKB_FRAGS_def PAGE_SIZE_def)
  with xmit_frags_more [OF h] have "tx_more_requests skb + 2 \<le> 2 ^ 5"
    by (simp split: if_splits)
  also have "(2::nat) ^ 5 \<le> 2 ^ m" using m by (intro power_increasing) simp_all
  finally show ?thesis .
qed

text \<open>
  C4 (as amended). For every packet that \<open>xennet_start_xmit\<close> accepts and whose head is
  not both empty and page-aligned (offset in page plus head length is positive, and below
  \<open>2^32\<close>), on a ring of a power of two of at least 32 entries: submitting it with
  \<open>k\<close> fragments, the count \<open>frags\<close> that the function computes, advances the private
  request producer by \<open>k\<close>, plus one when the packet has a segment size (the extra-info
  entry after the first request), and of its \<open>k\<close> requests every one but the last has
  the more-data flag and the last has not.
\<close>

theorem xennet_start_xmit_descriptors:
  assumes run: "xennet_start_xmit np skb later = Inr (rv, np')"
    and acc: "\<not> tx_packet_dropped np skb"
    and ring: "tx_nr_ents np = 2 ^ m" "5 \<le> m" "m < 32"
    and head: "0 < offset_in_page (skb_data skb) + unat (skb_headlen skb)"
      "offset_in_page (skb_data skb) + unat (skb_headlen skb) < 2 ^ 32"
  shows "tx_req_prod_pvt np' = tx_req_prod_pvt np + of_nat (xmit_frags skb + tx_gso_entries skb)
       \<and> (\<forall>j<xmit_frags skb.
            (txreq_flags (tx_ring_req np' (tx_idx np (tx_request_index np skb j)))
                AND XEN_NETTXF_more_data \<noteq> 0)
              \<longleftrightarrow> Suc j < xmit_frags skb)"
proof -
  from xennet_start_xmit_effect [OF run acc] obtain np1 where
    r: "xennet_start_xmit_requests np skb = Inr np1"
    and e: "tx_ring_req np' = tx_ring_req np1" "tx_req_prod_pvt np' = tx_req_prod_pvt np1"
    by blast
  have k: "xmit_frags skb = Suc (tx_more_requests skb)"
    using xmit_frags_more [OF head(2)] head(1) by simp
  note s = tx_accepted_ring [OF acc head(2) ring(2)]
  note q = xennet_start_xmit_requests_effect [OF r ring(1) ring(3) s]
  have a: "tx_req_prod_pvt np' = tx_req_prod_pvt np + of_nat (xmit_frags skb + tx_gso_entries skb)"
    using q(1) by (simp add: e k add.commute)
  have b: "(txreq_flags (tx_ring_req np' (tx_idx np (tx_request_index np skb j)))
                AND XEN_NETTXF_more_data \<noteq> 0) \<longleftrightarrow> Suc j < xmit_frags skb"
    if j: "j < xmit_frags skb" for j
  proof (cases j)
    case 0
    then show ?thesis
      using q(2) tx_first_flags_more_data [of "ip_summed skb" "gso_size skb \<noteq> 0" "tx_more_requests skb = 0"]
      by (simp add: e k tx_request_index_def)
  next
    case (Suc j')
    with j k have j': "j' < tx_more_requests skb" by simp
    have "tx_request_index np skb j = tx_req_prod_pvt np + of_nat (1 + tx_gso_entries skb + j')"
      by (simp add: tx_request_index_def Suc add.commute add.left_commute)
    with q(3) j' have "txreq_flags (tx_ring_req np' (tx_idx np (tx_request_index np skb j)))
        = (if Suc j' < tx_more_requests skb then XEN_NETTXF_more_data else 0)"
      by (simp add: e)
    then show ?thesis using tx_more_flags(1) [of "Suc j' < tx_more_requests skb"]
      by (simp add: k Suc)
  qed
  from a b show ?thesis by blast
qed

theorem xennet_start_xmit_descriptors_witness:
  "\<exists>np'. xennet_start_xmit np_example skb_example [] = Inr (0, np')
     \<and> xmit_frags skb_example = 3
     \<and> tx_req_prod_pvt np' = 9
     \<and> txreq_flags (tx_ring_req np' 6) AND XEN_NETTXF_more_data \<noteq> 0
     \<and> txreq_flags (tx_ring_req np' 7) AND XEN_NETTXF_more_data \<noteq> 0
     \<and> txreq_flags (tx_ring_req np' 8) AND XEN_NETTXF_more_data = 0"
proof -
  from np_example_xmit obtain np' where r: "xennet_start_xmit np_example skb_example [] = Inr (0, np')" ..
  have acc: "\<not> tx_packet_dropped np_example skb_example"
    by (simp add: tx_packet_dropped_def skb_example_frags MAX_SKB_FRAGS_def PAGE_SIZE_def)
       (simp add: np_example_def skb_example_def xennet_can_sg_def NETIF_F_SG_def)
  have ring: "tx_nr_ents np_example = 2 ^ 8" "(5::nat) \<le> 8" "(8::nat) < 32"
    by (simp_all add: np_example_def)
  have head: "0 < offset_in_page (skb_data skb_example) + unat (skb_headlen skb_example)"
      "offset_in_page (skb_data skb_example) + unat (skb_headlen skb_example) < 2 ^ 32"
    by (simp_all add: skb_example_def offset_in_page_def skb_headlen_def PAGE_SIZE_def)
  have i: "tx_idx np_example (tx_request_index np_example skb_example 0) = 6"
    "tx_idx np_example (tx_request_index np_example skb_example 1) = 7"
    "tx_idx np_example (tx_request_index np_example skb_example 2) = 8"
    by (simp_all add: tx_idx_def tx_request_index_def tx_gso_entries_def np_example_def skb_example_def)
  from xennet_start_xmit_descriptors [OF r acc ring head]
  have p: "tx_req_prod_pvt np' = 9"
    and f: "\<forall>j<3. (txreq_flags (tx_ring_req np' (tx_idx np_example (tx_request_index np_example skb_example j)))
                AND XEN_NETTXF_more_data \<noteq> 0) \<longleftrightarrow> Suc j < 3"
    by (simp_all add: skb_example_frags tx_gso_entries_def) (simp_all add: np_example_def skb_example_def)
  from f [rule_format, of 0] f [rule_format, of 1] f [rule_format, of 2] i
  have "txreq_flags (tx_ring_req np' 6) AND XEN_NETTXF_more_data \<noteq> 0"
    "txreq_flags (tx_ring_req np' 7) AND XEN_NETTXF_more_data \<noteq> 0"
    "txreq_flags (tx_ring_req np' 8) AND XEN_NETTXF_more_data = 0"
    by simp_all
  with r p skb_example_frags show ?thesis by blast
qed

lemma tx_set_more_data_keeps: "tx_submit_keeps np (tx_set_more_data np tx)"
  by (simp add: tx_submit_keeps_def tx_set_more_data_def)

lemma make_frags_frags_prod:
  "make_frags_frags np skb tx prd fl = Inr (np', tx', prd')
     \<Longrightarrow> prd' = prd + of_nat (length fl) \<and> tx_submit_keeps np np'"
proof (induction fl arbitrary: np tx prd)
  case Nil
  then show ?case by (simp add: tx_submit_keeps_refl)
next
  case (Cons frag rest)
  from Cons.prems obtain np2 tx1 where
    r: "make_frags_request (tx_set_more_data np tx) skb prd (page_to_mfn (frag_page frag))
             (ucast (page_offset frag)) (ucast (frag_size frag)) = Inr (np2, tx1)"
    and l: "make_frags_frags np2 skb tx1 (prd + 1) rest = Inr (np', tx', prd')"
    by (auto split: sum.splits prod.splits)
  have "tx_submit_keeps np np2"
    using tx_set_more_data_keeps make_frags_request_effect(4) [OF r]
    by (rule tx_submit_keeps_trans)
  with Cons.IH [OF l] show ?case
    by (auto simp: add.assoc intro: tx_submit_keeps_trans)
qed

lemma make_frags_head_prod:
  assumes "make_frags_head np skb tx prd data offset hlen = Inr (np', tx', prd')"
    and "offset < PAGE_SIZE"
  shows "prd' = prd + of_nat ((offset + hlen - 1) div PAGE_SIZE) \<and> tx_submit_keeps np np'"
  using assms
proof (induction np skb tx prd data offset hlen rule: make_frags_head.induct)
  case (1 np skb tx prd data offset hlen)
  show ?case
  proof (cases "hlen > PAGE_SIZE - offset")
    case False
    with "1.prems"(2) have "(offset + hlen - 1) div PAGE_SIZE = 0" by (simp add: PAGE_SIZE_def)
    moreover from False "1.prems"(1) have "prd' = prd \<and> np' = np"
      by (simp add: make_frags_head.simps [of np skb tx prd data offset hlen])
    ultimately show ?thesis by (simp add: tx_submit_keeps_refl)
  next
    case True
    define sz :: u16 where "sz = of_nat (PAGE_SIZE - offset)"
    define np1 where "np1 = tx_set_more_data
       (np\<lparr>tx_ring_req := (tx_ring_req np)(tx := (tx_ring_req np tx)\<lparr>txreq_size := sz\<rparr>)\<rparr>) tx"
    define hlen' where "hlen' = hlen - unat sz"
    define data' where "data' = data + ucast sz"
    have c: "offset < PAGE_SIZE \<and> PAGE_SIZE - offset < hlen" using True "1.prems"(2) by simp
    have usz: "unat sz = PAGE_SIZE - offset"
      by (simp add: sz_def unat_of_nat PAGE_SIZE_def)
    from "1.prems"(1) c obtain np2 tx1 where
      r: "make_frags_request np1 skb prd (virt_to_mfn data') 0 (of_nat hlen') = Inr (np2, tx1)"
      and l: "make_frags_head np2 skb tx1 (prd + 1) data' 0 hlen' = Inr (np', tx', prd')"
      by (auto simp: make_frags_head.simps [of np skb tx prd data offset hlen] Let_def
          sz_def np1_def hlen'_def data'_def split: sum.splits prod.splits)
    have n: "(offset + hlen - 1) div PAGE_SIZE = Suc ((0 + hlen' - 1) div PAGE_SIZE)"
    proof -
      have "hlen' = hlen - (PAGE_SIZE - offset)" by (simp add: hlen'_def usz)
      with c have "offset + hlen - 1 = (hlen' - 1) + PAGE_SIZE" by arith
      then show ?thesis by (simp add: PAGE_SIZE_def)
    qed
    have z: "(0::nat) < PAGE_SIZE" by (simp add: PAGE_SIZE_def)
    have "tx_submit_keeps np np1"
      by (simp add: np1_def tx_submit_keeps_def tx_set_more_data_def)
    then have k: "tx_submit_keeps np np2"
      using make_frags_request_effect(4) [OF r] by (rule tx_submit_keeps_trans)
    from "1.IH" [OF c sz_def np1_def hlen'_def data'_def r refl l z] k
    show ?thesis unfolding n by (auto simp: add.assoc intro: tx_submit_keeps_trans)
  qed
qed

lemma xennet_make_frags_prod:
  assumes "xennet_make_frags np skb tx = Inr np'"
  shows "tx_req_prod_pvt np' = tx_req_prod_pvt np + of_nat (tx_more_requests skb)"
    and "tx_submit_keeps np (np'\<lparr>tx_req_prod_pvt := tx_req_prod_pvt np\<rparr>)"
proof -
  let ?off = "offset_in_page (skb_data skb)" and ?hl = "unat (skb_headlen skb)"
  from assms obtain np1 tx1 prd1 np2 tx2 prd2 where
    h: "make_frags_head np skb tx (tx_req_prod_pvt np) (skb_data skb) ?off ?hl = Inr (np1, tx1, prd1)"
    and f: "make_frags_frags np1 skb tx1 prd1 (map (frags skb) [0..<nr_frags skb]) = Inr (np2, tx2, prd2)"
    and np': "np' = np2\<lparr>tx_req_prod_pvt := prd2\<rparr>"
    by (auto simp: xennet_make_frags_def split: sum.splits prod.splits)
  have off: "?off < PAGE_SIZE" by (simp add: offset_in_page_def PAGE_SIZE_def)
  note a = make_frags_head_prod [OF h off] and b = make_frags_frags_prod [OF f]
  from a b show "tx_req_prod_pvt np' = tx_req_prod_pvt np + of_nat (tx_more_requests skb)"
    by (simp add: np' tx_more_requests_def add.assoc)
  from a b have "tx_submit_keeps np np2" by (blast intro: tx_submit_keeps_trans)
  then show "tx_submit_keeps np (np'\<lparr>tx_req_prod_pvt := tx_req_prod_pvt np\<rparr>)"
    by (simp add: np' tx_submit_keeps_def)
qed

lemma xennet_start_xmit_requests_split:
  assumes "xennet_start_xmit_requests np skb = Inr np'"
  obtains np2 np3 where
    "xennet_make_frags np2 skb (tx_idx np (tx_req_prod_pvt np)) = Inr np3"
    and "np' = np3\<lparr>tx_ring_req := (tx_ring_req np3)(tx_idx np (tx_req_prod_pvt np) :=
                 (tx_ring_req np3 (tx_idx np (tx_req_prod_pvt np)))\<lparr>txreq_size := ucast (len skb)\<rparr>)\<rparr>"
    and "tx_submit_keeps np (np2\<lparr>tx_req_prod_pvt := tx_req_prod_pvt np,
                                  tx_ring_extra := tx_ring_extra np\<rparr>)"
    and "tx_req_prod_pvt np2 = tx_req_prod_pvt np + of_nat (1 + tx_gso_entries skb)"
    and "txreq_flags (tx_ring_req np2 (tx_idx np (tx_req_prod_pvt np)))
          = tx_csum_flags (ip_summed skb) OR (if gso_size skb \<noteq> 0 then XEN_NETTXF_extra_info else 0)"
  using assms
  by (auto simp: xennet_start_xmit_requests_def Let_def tx_submit_keeps_def tx_gso_entries_def
        split: sum.splits prod.splits if_splits)

lemma xennet_start_xmit_requests_prod:
  assumes "xennet_start_xmit_requests np skb = Inr np'"
  shows "tx_req_prod_pvt np' = tx_req_prod_pvt np
            + of_nat (1 + tx_gso_entries skb + tx_more_requests skb)"
    and "netdev np' = netdev np" and "stats_tx_packets np' = stats_tx_packets np"
proof -
  from assms obtain np2 np3 where
    mf: "xennet_make_frags np2 skb (tx_idx np (tx_req_prod_pvt np)) = Inr np3"
    and np': "np' = np3\<lparr>tx_ring_req := (tx_ring_req np3)(tx_idx np (tx_req_prod_pvt np) :=
                 (tx_ring_req np3 (tx_idx np (tx_req_prod_pvt np)))\<lparr>txreq_size := ucast (len skb)\<rparr>)\<rparr>"
    and k2: "tx_submit_keeps np (np2\<lparr>tx_req_prod_pvt := tx_req_prod_pvt np,
                                  tx_ring_extra := tx_ring_extra np\<rparr>)"
    and p2: "tx_req_prod_pvt np2 = tx_req_prod_pvt np + of_nat (1 + tx_gso_entries skb)"
    by (rule xennet_start_xmit_requests_split)
  note m = xennet_make_frags_prod [OF mf]
  show "tx_req_prod_pvt np' = tx_req_prod_pvt np
            + of_nat (1 + tx_gso_entries skb + tx_more_requests skb)"
    using m(1) by (simp add: np' p2 add.assoc)
  show "netdev np' = netdev np" and "stats_tx_packets np' = stats_tx_packets np"
    using m(2) k2 by (simp_all add: np' tx_submit_keeps_def)
qed


lemma skb_headless_frags: "xmit_frags skb_headless = 1"
  by (simp add: xmit_frags_def skb_headless_def offset_in_page_def skb_headlen_def
      DIV_ROUND_UP_def PAGE_SIZE_def)

lemma np_example_xmit_headless:
  "\<exists>np'. xennet_start_xmit np_example skb_headless [] = Inr (0, np')"
  by (simp add: xennet_start_xmit_def skb_headless_frags MAX_SKB_FRAGS_def PAGE_SIZE_def
      xennet_can_sg_def NETIF_F_SG_def
      xennet_start_xmit_requests_def xennet_make_frags_def make_frags_head.simps
      make_frags_request_def tx_set_more_data_def get_id_from_freelist_def
      gnttab_claim_grant_reference_def ref_negative_def
      gnttab_grant_foreign_access_ref_def skb_get_def virt_to_mfn_def page_to_mfn_def
      offset_in_page_def skb_headlen_def tx_csum_flags_def
      tx_push_requests_and_check_notify_def
      xennet_tx_buf_gc_def xennet_tx_buf_gc_loop.simps xennet_tx_buf_gc_pass_def
      tx_buf_gc_scan_more tx_buf_gc_scan_done
      tx_buf_gc_response_def tx_idx_def Let_def XEN_NETIF_RSP_NULL_def
      gnttab_query_foreign_access_def gnttab_end_foreign_access_ref_def
      gnttab_release_grant_reference_def add_id_to_freelist_def skb_entry_set_link_def
      dev_kfree_skb_def GRANT_INVALID_REF_def xennet_maybe_wake_tx_def
      netfront_tx_slot_available_def NETDEV_TX_OK_def
      np_example_def skb_headless_def upt_rec)

text \<open>The claim as stated, for every accepted packet: a packet with an empty, page-aligned
  head and one fragment has the fragment count 1 and takes two requests.\<close>

theorem xennet_start_xmit_descriptors_counterexample:
  "\<not> tx_packet_dropped np_example skb_headless
   \<and> xmit_frags skb_headless = 1 \<and> tx_gso_entries skb_headless = 0
   \<and> (\<exists>np'. xennet_start_xmit np_example skb_headless [] = Inr (0, np')
          \<and> tx_req_prod_pvt np' = tx_req_prod_pvt np_example + 2)"
proof -
  have acc: "\<not> tx_packet_dropped np_example skb_headless"
    by (simp add: tx_packet_dropped_def skb_headless_frags MAX_SKB_FRAGS_def PAGE_SIZE_def)
       (simp add: np_example_def skb_headless_def)
  from np_example_xmit_headless obtain np' where
    r: "xennet_start_xmit np_example skb_headless [] = Inr (0, np')" ..
  from xennet_start_xmit_effect [OF r acc] obtain np1 where
    q: "xennet_start_xmit_requests np_example skb_headless = Inr np1"
    and e: "tx_req_prod_pvt np' = tx_req_prod_pvt np1" by blast
  have "tx_more_requests skb_headless = 1"
    by (simp add: tx_more_requests_def skb_headless_def offset_in_page_def skb_headlen_def PAGE_SIZE_def)
  moreover have g: "tx_gso_entries skb_headless = 0"
    by (simp add: tx_gso_entries_def skb_headless_def)
  ultimately have "tx_req_prod_pvt np' = tx_req_prod_pvt np_example + 2"
    using xennet_start_xmit_requests_prod(1) [OF q] e by simp
  with acc r g skb_headless_frags show ?thesis by blast
qed


text \<open>
  C8 (as amended). For every packet that \<open>xennet_start_xmit\<close> accepts, with offset in
  page plus head length below \<open>2^32\<close>, on a ring of a power of two of at least 32
  entries: the packet takes one request, plus \<open>tx_more_requests\<close> more, plus the
  extra-info entry of a segment size; the first request carries the checksum-blank flag exactly when the packet is
  \<open>CHECKSUM_PARTIAL\<close>, and the data-validated flag exactly when it is
  \<open>CHECKSUM_PARTIAL\<close> or \<open>CHECKSUM_UNNECESSARY\<close>; every other request of the packet,
  that is each of the \<open>tx_more_requests\<close> requests that \<open>xennet_make_frags\<close> adds
  (also the last one of a packet with an empty, page-aligned head), carries neither.
\<close>

theorem xennet_start_xmit_checksum_flags:
  assumes run: "xennet_start_xmit np skb later = Inr (rv, np')"
    and acc: "\<not> tx_packet_dropped np skb"
    and ring: "tx_nr_ents np = 2 ^ m" "5 \<le> m" "m < 32"
    and head: "offset_in_page (skb_data skb) + unat (skb_headlen skb) < 2 ^ 32"
  shows "tx_req_prod_pvt np'
           = tx_req_prod_pvt np + of_nat (1 + tx_gso_entries skb + tx_more_requests skb)
       \<and> ((txreq_flags (tx_ring_req np' (tx_idx np (tx_request_index np skb 0)))
             AND XEN_NETTXF_csum_blank \<noteq> 0)
           \<longleftrightarrow> ip_summed skb = CHECKSUM_PARTIAL)
       \<and> ((txreq_flags (tx_ring_req np' (tx_idx np (tx_request_index np skb 0)))
             AND XEN_NETTXF_data_validated \<noteq> 0)
           \<longleftrightarrow> ip_summed skb = CHECKSUM_PARTIAL \<or> ip_summed skb = CHECKSUM_UNNECESSARY)
       \<and> (\<forall>j. 0 < j \<and> j \<le> tx_more_requests skb \<longrightarrow>
             txreq_flags (tx_ring_req np' (tx_idx np (tx_request_index np skb j)))
               AND (XEN_NETTXF_csum_blank OR XEN_NETTXF_data_validated) = 0)"
proof -
  from xennet_start_xmit_effect [OF run acc] obtain np1 where
    r: "xennet_start_xmit_requests np skb = Inr np1"
    and e: "tx_ring_req np' = tx_ring_req np1"
    and e': "tx_req_prod_pvt np' = tx_req_prod_pvt np1"
    by blast
  note s = tx_accepted_ring [OF acc head ring(2)]
  note q = xennet_start_xmit_requests_effect [OF r ring(1) ring(3) s]
  have n: "tx_req_prod_pvt np'
           = tx_req_prod_pvt np + of_nat (1 + tx_gso_entries skb + tx_more_requests skb)"
    unfolding e' by (rule q(1))
  have i0: "tx_request_index np skb 0 = tx_req_prod_pvt np" by (simp add: tx_request_index_def)
  have a: "(txreq_flags (tx_ring_req np' (tx_idx np (tx_request_index np skb 0)))
             AND XEN_NETTXF_csum_blank \<noteq> 0) \<longleftrightarrow> ip_summed skb = CHECKSUM_PARTIAL"
    and b: "(txreq_flags (tx_ring_req np' (tx_idx np (tx_request_index np skb 0)))
             AND XEN_NETTXF_data_validated \<noteq> 0)
           \<longleftrightarrow> ip_summed skb = CHECKSUM_PARTIAL \<or> ip_summed skb = CHECKSUM_UNNECESSARY"
    unfolding i0 e q(2)
    using tx_first_flags_csum [of "ip_summed skb" "gso_size skb \<noteq> 0" "tx_more_requests skb = 0"]
    by simp_all
  have c: "txreq_flags (tx_ring_req np' (tx_idx np (tx_request_index np skb j)))
               AND (XEN_NETTXF_csum_blank OR XEN_NETTXF_data_validated) = 0"
    if j: "0 < j \<and> j \<le> tx_more_requests skb" for j
  proof -
    from j obtain j' where jj: "j = Suc j'" by (cases j) auto
    from j have j': "j' < tx_more_requests skb" by (simp add: jj)
    have "tx_request_index np skb j = tx_req_prod_pvt np + of_nat (1 + tx_gso_entries skb + j')"
      by (simp add: tx_request_index_def jj add.commute add.left_commute)
    with q(3) j' have "txreq_flags (tx_ring_req np' (tx_idx np (tx_request_index np skb j)))
        = (if Suc j' < tx_more_requests skb then XEN_NETTXF_more_data else 0)"
      by (simp add: e)
    then show ?thesis using tx_more_flags(2) [of "Suc j' < tx_more_requests skb"] by simp
  qed
  from n a b c show ?thesis by blast
qed

theorem xennet_start_xmit_checksum_flags_witness:
  "\<exists>np'. xennet_start_xmit np_example skb_example [] = Inr (0, np')
     \<and> ip_summed skb_example = CHECKSUM_PARTIAL
     \<and> txreq_flags (tx_ring_req np' 6) AND XEN_NETTXF_csum_blank \<noteq> 0
     \<and> txreq_flags (tx_ring_req np' 7) AND (XEN_NETTXF_csum_blank OR XEN_NETTXF_data_validated) = 0
     \<and> txreq_flags (tx_ring_req np' 8) AND (XEN_NETTXF_csum_blank OR XEN_NETTXF_data_validated) = 0"
proof -
  from np_example_xmit obtain np' where r: "xennet_start_xmit np_example skb_example [] = Inr (0, np')" ..
  have acc: "\<not> tx_packet_dropped np_example skb_example"
    by (simp add: tx_packet_dropped_def skb_example_frags MAX_SKB_FRAGS_def PAGE_SIZE_def)
       (simp add: np_example_def skb_example_def xennet_can_sg_def NETIF_F_SG_def)
  have ring: "tx_nr_ents np_example = 2 ^ 8" "(5::nat) \<le> 8" "(8::nat) < 32"
    by (simp_all add: np_example_def)
  have head: "offset_in_page (skb_data skb_example) + unat (skb_headlen skb_example) < 2 ^ 32"
    by (simp_all add: skb_example_def offset_in_page_def skb_headlen_def PAGE_SIZE_def)
  have i: "tx_idx np_example (tx_request_index np_example skb_example 0) = 6"
    "tx_idx np_example (tx_request_index np_example skb_example 1) = 7"
    "tx_idx np_example (tx_request_index np_example skb_example 2) = 8"
    by (simp_all add: tx_idx_def tx_request_index_def tx_gso_entries_def np_example_def skb_example_def)
  have p: "ip_summed skb_example = CHECKSUM_PARTIAL" by (simp add: skb_example_def)
  have m: "tx_more_requests skb_example = 2"
    by (simp add: tx_more_requests_def skb_example_def offset_in_page_def
        skb_headlen_def PAGE_SIZE_def)
  note t = xennet_start_xmit_checksum_flags [OF r acc ring head]
  from t p i have "txreq_flags (tx_ring_req np' 6) AND XEN_NETTXF_csum_blank \<noteq> 0" by simp
  moreover from t [THEN conjunct2, THEN conjunct2, THEN conjunct2, rule_format, of 1] i
  have "txreq_flags (tx_ring_req np' 7) AND (XEN_NETTXF_csum_blank OR XEN_NETTXF_data_validated) = 0"
    by (simp add: m)
  moreover from t [THEN conjunct2, THEN conjunct2, THEN conjunct2, rule_format, of 2] i
  have "txreq_flags (tx_ring_req np' 8) AND (XEN_NETTXF_csum_blank OR XEN_NETTXF_data_validated) = 0"
    by (simp add: m)
  ultimately show ?thesis using r p by blast
qed

text \<open>The claim as stated, data-validated exactly for \<open>CHECKSUM_UNNECESSARY\<close>: the first
  request of a \<open>CHECKSUM_PARTIAL\<close> packet carries the data-validated flag too.\<close>

theorem xennet_start_xmit_checksum_flags_counterexample:
  "\<exists>np'. xennet_start_xmit np_example skb_example [] = Inr (0, np')
     \<and> txreq_flags (tx_ring_req np' (tx_idx np_example (tx_req_prod_pvt np_example)))
           AND XEN_NETTXF_data_validated \<noteq> 0
     \<and> ip_summed skb_example \<noteq> CHECKSUM_UNNECESSARY"
proof -
  from np_example_xmit obtain np' where r: "xennet_start_xmit np_example skb_example [] = Inr (0, np')" ..
  have acc: "\<not> tx_packet_dropped np_example skb_example"
    by (simp add: tx_packet_dropped_def skb_example_frags MAX_SKB_FRAGS_def PAGE_SIZE_def)
       (simp add: np_example_def skb_example_def xennet_can_sg_def NETIF_F_SG_def)
  from xennet_start_xmit_effect [OF r acc] obtain np1 where
    q: "xennet_start_xmit_requests np_example skb_example = Inr np1"
    and e: "tx_ring_req np' = tx_ring_req np1" by blast
  have ring: "tx_nr_ents np_example = 2 ^ 8" "(8::nat) < 32"
    by (simp_all add: np_example_def)
  have m: "tx_more_requests skb_example = 2"
    by (simp_all add: tx_more_requests_def skb_example_def offset_in_page_def
        skb_headlen_def PAGE_SIZE_def)
  have p: "ip_summed skb_example = CHECKSUM_PARTIAL" by (simp add: skb_example_def)
  from xennet_start_xmit_requests_effect(2) [OF q ring] m
  have "txreq_flags (tx_ring_req np' (tx_idx np_example (tx_req_prod_pvt np_example)))
      = tx_csum_flags CHECKSUM_PARTIAL OR (if gso_size skb_example \<noteq> 0 then XEN_NETTXF_extra_info else 0)
          OR (if False then 0 else XEN_NETTXF_more_data)"
    by (simp add: e p)
  with tx_first_flags_csum(2) [of CHECKSUM_PARTIAL "gso_size skb_example \<noteq> 0" False]
  have "txreq_flags (tx_ring_req np' (tx_idx np_example (tx_req_prod_pvt np_example)))
           AND XEN_NETTXF_data_validated \<noteq> 0" by simp
  with r p show ?thesis by auto
qed

subsection \<open>Descriptor ids\<close>

































end
